theory Spec2Isabelle
  imports Main
begin

section \<open>Python values used by \<open>elt_tools/client.py\<close>\<close>

text \<open>
  The client works on naive \<open>datetime.datetime\<close> values and, once date truncation
  (\<open>stick_to_dates\<close>) has been applied, on \<open>datetime.date\<close> values. A datetime is
  kept as the number of microseconds since 0001-01-01 00:00:00, a date as its proleptic
  Gregorian ordinal (\<open>date.toordinal()\<close>, 1 for 0001-01-01); a \<open>timedelta\<close> is a
  number of microseconds. The values are those of valid Python objects (years 1 to 9999).
\<close>

datatype pytime = DateTime int | Date int

datatype error =
    ValueError string
  | AttributeError
  | TypeError
  | QueryError

definition us_per_day :: int where
  "us_per_day = 86400000000"

subsection \<open>\<open>str()\<close> of integers, dates and datetimes\<close>

definition digit_char :: "nat \<Rightarrow> char" where
  "digit_char n = ''0123456789'' ! (n mod 10)"

fun str_nat :: "nat \<Rightarrow> string" where
  "str_nat n = (if n < 10 then [digit_char n] else str_nat (n div 10) @ [digit_char n])"

definition str_int :: "int \<Rightarrow> string" where
  "str_int i = (if i < 0 then CHR ''-'' # str_nat (nat (- i)) else str_nat (nat i))"

text \<open>\<open>'%0<w>d' % n\<close> for a non-negative \<open>n\<close>.\<close>

definition zero_pad :: "nat \<Rightarrow> nat \<Rightarrow> string" where
  "zero_pad w n = replicate (w - length (str_nat n)) CHR ''0'' @ str_nat n"

definition days_before_month :: "nat list" where
  "days_before_month = [0, 0, 31, 59, 90, 120, 151, 181, 212, 243, 273, 304, 334]"

definition days_in_month :: "nat list" where
  "days_in_month = [0, 31, 28, 31, 30, 31, 30, 31, 31, 30, 31, 30, 31]"

text \<open>The standard library's \<open>_ord2ymd\<close>: ordinal to (year, month, day).\<close>

definition ord2ymd :: "nat \<Rightarrow> nat \<times> nat \<times> nat" where
  "ord2ymd ordinal =
    (let n0 = ordinal - 1;
         n400 = n0 div 146097; n1 = n0 mod 146097;
         n100 = n1 div 36524; n2 = n1 mod 36524;
         n4 = n2 div 1461; n3 = n2 mod 1461;
         ny = n3 div 365; n = n3 mod 365;
         year = n400 * 400 + 1 + n100 * 100 + n4 * 4 + ny
     in if ny = 4 \<or> n100 = 4 then (year - 1, 12, 31)
        else
          let leapyear = (ny = 3 \<and> (n4 \<noteq> 24 \<or> n100 = 3));
              month = (n + 50) div 32;
              preceding = days_before_month ! month + (if month > 2 \<and> leapyear then 1 else 0)
          in if preceding > n
             then let month' = month - 1;
                      preceding' = preceding
                        - (days_in_month ! month' + (if month' = 2 \<and> leapyear then 1 else 0))
                  in (year, month', n - preceding' + 1)
             else (year, month, n - preceding + 1))"

definition str_date :: "int \<Rightarrow> string" where
  "str_date ordinal =
    (case ord2ymd (nat ordinal) of
       (y, m, d) \<Rightarrow> zero_pad 4 y @ ''-'' @ zero_pad 2 m @ ''-'' @ zero_pad 2 d)"

definition str_datetime :: "int \<Rightarrow> string" where
  "str_datetime us =
    (let day_us = nat (us mod us_per_day);
         secs = day_us div 1000000;
         frac = day_us mod 1000000
     in str_date (us div us_per_day + 1) @ '' ''
        @ zero_pad 2 (secs div 3600) @ '':'' @ zero_pad 2 (secs mod 3600 div 60) @ '':''
        @ zero_pad 2 (secs mod 60)
        @ (if frac = 0 then [] else ''.'' @ zero_pad 6 frac))"

fun str_pytime :: "pytime \<Rightarrow> string" where
  "str_pytime (DateTime us) = str_datetime us"
| "str_pytime (Date d) = str_date d"

text \<open>\<open>sep.join(xs)\<close>.\<close>

fun str_join :: "string \<Rightarrow> string list \<Rightarrow> string" where
  "str_join sep [] = []"
| "str_join sep [x] = x"
| "str_join sep (x # y # ys) = x @ sep @ str_join sep (y # ys)"

text \<open>\<open>x.date()\<close>: a \<open>datetime\<close> has the method, a \<open>date\<close> has not.\<close>

fun date_of :: "pytime \<Rightarrow> error + pytime" where
  "date_of (DateTime us) = Inr (Date (us div us_per_day + 1))"
| "date_of (Date d) = Inl AttributeError"

section \<open>The where clause of a time range\<close>

definition sq :: string where
  "sq = [CHR 0x27]"

definition msg_same_range :: string where
  "msg_same_range =
     ''The date range for dates is inclusive of the start date and exclusive of the end date.''
     @ ''Since your start and end date range is the same, your query will be meaningless.''"

definition msg_no_fields :: string where
  "msg_no_fields = ''You'' @ sq @ ''ve passed in a time range, but no timestamp field names.''"

text \<open>Truthiness of \<open>timestamp_fields\<close>: \<open>None\<close> and \<open>[]\<close> are false.\<close>

fun fields_given :: "string list option \<Rightarrow> bool" where
  "fields_given None = False"
| "fields_given (Some fs) = (fs \<noteq> [])"

fun fields_of :: "string list option \<Rightarrow> string list" where
  "fields_of None = []"
| "fields_of (Some fs) = fs"

text \<open>Lines 28 to 32: \<open>if x: x = x.date()\<close> under \<open>stick_to_dates\<close>.\<close>

fun truncate_bound :: "bool \<Rightarrow> pytime option \<Rightarrow> error + pytime option" where
  "truncate_bound stick None = Inr None"
| "truncate_bound stick (Some t) =
     (if stick then (case date_of t of Inl e \<Rightarrow> Inl e | Inr d \<Rightarrow> Inr (Some d))
      else Inr (Some t))"

definition both_bounds_term :: "pytime \<Rightarrow> pytime \<Rightarrow> string \<Rightarrow> string" where
  "both_bounds_term s e f =
     ''('' @ f @ '' >= '' @ sq @ str_pytime s @ sq @ '' AND '' @ f @ '' < '' @ sq
       @ str_pytime e @ sq @ '')''"

definition start_term :: "pytime \<Rightarrow> string \<Rightarrow> string" where
  "start_term s f = f @ '' >= '' @ sq @ str_pytime s @ sq"

definition end_term :: "pytime \<Rightarrow> string \<Rightarrow> string" where
  "end_term e f = f @ '' < '' @ sq @ str_pytime e @ sq"

definition construct_where_clause_from_timerange ::
  "pytime option \<Rightarrow> pytime option \<Rightarrow> string list option \<Rightarrow> bool \<Rightarrow> error + string" where
  "construct_where_clause_from_timerange start_datetime end_datetime timestamp_fields stick_to_dates =
    (if stick_to_dates \<and> start_datetime = end_datetime then Inl (ValueError msg_same_range)
     else if (\<not> fields_given timestamp_fields \<and> start_datetime \<noteq> None)
           \<or> (\<not> fields_given timestamp_fields \<and> end_datetime \<noteq> None)
       then Inl (ValueError msg_no_fields)
     else
       (case truncate_bound stick_to_dates start_datetime of
          Inl err \<Rightarrow> Inl err
        | Inr start \<Rightarrow>
       (case truncate_bound stick_to_dates end_datetime of
          Inl err \<Rightarrow> Inl err
        | Inr end \<Rightarrow>
       (case (fields_given timestamp_fields, start, end) of
          (True, Some s, Some e) \<Rightarrow>
            Inr ('' WHERE ''
                 @ str_join '' OR '' (map (both_bounds_term s e) (fields_of timestamp_fields)))
        | _ \<Rightarrow>
            (let where1 =
                   (case (fields_given timestamp_fields, start) of
                      (True, Some s) \<Rightarrow>
                        '' WHERE ''
                        @ str_join '' AND '' (map (start_term s) (fields_of timestamp_fields))
                    | _ \<Rightarrow> []);
                 where2 =
                   (case (fields_given timestamp_fields, end) of
                      (True, Some e) \<Rightarrow>
                        where1 @ '' AND ''
                        @ str_join '' AND '' (map (end_term e) (fields_of timestamp_fields))
                    | _ \<Rightarrow> where1)
             in Inr where2)))))"

section \<open>Programs over a store: state passing with errors\<close>

text \<open>
  A method that talks to a store takes the state and returns the new state together with
  its result; a raised exception is \<open>Inl\<close> and leaves the state as it was when it was
  raised.
\<close>

type_synonym ('s, 'a) prog = "'s \<Rightarrow> (error + 'a) \<times> 's"

definition returnE :: "'a \<Rightarrow> ('s, 'a) prog" where
  "returnE x = (\<lambda>w. (Inr x, w))"

definition raiseE :: "error \<Rightarrow> ('s, 'a) prog" where
  "raiseE err = (\<lambda>w. (Inl err, w))"

definition liftE :: "error + 'a \<Rightarrow> ('s, 'a) prog" where
  "liftE r = (\<lambda>w. (r, w))"

definition bindE :: "('s, 'a) prog \<Rightarrow> ('a \<Rightarrow> ('s, 'b) prog) \<Rightarrow> ('s, 'b) prog" where
  "bindE m f = (\<lambda>w. case m w of (Inl err, w') \<Rightarrow> (Inl err, w') | (Inr x, w') \<Rightarrow> f x w')"

section \<open>The data client\<close>

text \<open>
  A key value as the store returns it: a Python \<open>int\<close>, or a value of another type
  (a UUID, a string) given by its \<open>str()\<close>. \<open>format_id\<close> keeps the former and casts
  the latter to \<open>str\<close>.
\<close>

datatype raw_id = IntId int | OtherId string

datatype key = IntKey int | StrKey string

fun format_id :: "raw_id \<Rightarrow> key" where
  "format_id (IntId i) = IntKey i"
| "format_id (OtherId s) = StrKey s"

text \<open>
  A row of the table the calls name: its key and its timestamp columns (column name and
  datetime in microseconds; a column that is absent is NULL). Keys are never NULL, so
  \<open>COUNT(key)\<close> and \<open>COUNT(*)\<close> count the same rows. A client is the rows of its
  store and the statements its engine has executed, oldest first. Calls to \<open>logging\<close>
  and \<open>print\<close> change nothing that is observed here and are left out.
\<close>

record row =
  row_id :: raw_id
  stamps :: "(string \<times> int) list"

record data_client =
  rows :: "row list"
  executed :: "string list"

definition nl :: string where
  "nl = [CHR 0x0A]"

text \<open>The instant a rendered bound denotes when the store compares it with a timestamp.\<close>

fun instant :: "pytime \<Rightarrow> int" where
  "instant (DateTime us) = us"
| "instant (Date d) = (d - 1) * us_per_day"

definition column_in :: "int \<Rightarrow> int \<Rightarrow> row \<Rightarrow> string \<Rightarrow> bool" where
  "column_in lo hi r f = (case map_of (stamps r) f of None \<Rightarrow> False | Some t \<Rightarrow> lo \<le> t \<and> t < hi)"

definition column_from :: "int \<Rightarrow> row \<Rightarrow> string \<Rightarrow> bool" where
  "column_from lo r f = (case map_of (stamps r) f of None \<Rightarrow> False | Some t \<Rightarrow> lo \<le> t)"

text \<open>
  The store's reading of the clause that \<open>construct_where_clause_from_timerange\<close> builds
  from the bounds it renders (\<open>start\<close> and \<open>end\<close> after truncation): no clause selects
  every row; with both bounds a row is selected when some column lies in the half-open
  range; with a start only, when every column is at or after it. With an end only the
  clause starts with \<open>AND\<close> and the statement is rejected.
\<close>

fun selected :: "pytime option \<Rightarrow> pytime option \<Rightarrow> string list \<Rightarrow> row list \<Rightarrow> error + row list" where
  "selected None None fs rs = Inr rs"
| "selected (Some s) (Some e) fs rs =
     Inr (filter (\<lambda>r. list_ex (column_in (instant s) (instant e) r) fs) rs)"
| "selected (Some s) None fs rs = Inr (filter (\<lambda>r. list_all (column_from (instant s) r) fs) rs)"
| "selected None (Some e) fs rs = Inl QueryError"

definition selected_by ::
  "pytime option \<Rightarrow> pytime option \<Rightarrow> string list option \<Rightarrow> bool \<Rightarrow> row list \<Rightarrow> error + row list" where
  "selected_by start_datetime end_datetime timestamp_fields stick_to_dates rs =
    (case truncate_bound stick_to_dates start_datetime of
       Inl err \<Rightarrow> Inl err
     | Inr start \<Rightarrow>
    (case truncate_bound stick_to_dates end_datetime of
       Inl err \<Rightarrow> Inl err
     | Inr end \<Rightarrow> selected start end (fields_of timestamp_fields) rs))"

text \<open>\<open>engine.execute(query)\<close>: the statement is recorded and the store answers.\<close>

definition execute :: "string \<Rightarrow> (row list \<Rightarrow> error + 'a) \<Rightarrow> (data_client, 'a) prog" where
  "execute query answer = (\<lambda>c. (answer (rows c), c\<lparr>executed := executed c @ [query]\<rparr>))"

definition count_query_text :: "string \<Rightarrow> string option \<Rightarrow> string \<Rightarrow> string" where
  "count_query_text table_name field_name where_clause =
    (let field = (case field_name of None \<Rightarrow> ''*'' | Some f \<Rightarrow> if f = [] then ''*'' else f)
     in nl @ ''        SELECT COUNT('' @ field @ '') AS count FROM '' @ table_name
        @ nl @ ''        '' @ where_clause)"

definition count ::
  "string \<Rightarrow> string option \<Rightarrow> pytime option \<Rightarrow> pytime option \<Rightarrow> string list option \<Rightarrow> bool
   \<Rightarrow> (data_client, int) prog" where
  "count table_name field_name start_datetime end_datetime timestamp_fields stick_to_dates =
    bindE (liftE (construct_where_clause_from_timerange
                    start_datetime end_datetime timestamp_fields stick_to_dates))
      (\<lambda>where_clause.
         execute (count_query_text table_name field_name where_clause)
           (\<lambda>rs. case selected_by start_datetime end_datetime timestamp_fields stick_to_dates rs of
                    Inl err \<Rightarrow> Inl err
                  | Inr sel \<Rightarrow> Inr (int (length sel))))"

section \<open>The pair of a source and a target\<close>

record elt_pair =
  source :: data_client
  target :: data_client

definition on_source :: "(data_client, 'a) prog \<Rightarrow> (elt_pair, 'a) prog" where
  "on_source m = (\<lambda>p. case m (source p) of (r, c) \<Rightarrow> (r, p\<lparr>source := c\<rparr>))"

definition on_target :: "(data_client, 'a) prog \<Rightarrow> (elt_pair, 'a) prog" where
  "on_target m = (\<lambda>p. case m (target p) of (r, c) \<Rightarrow> (r, p\<lparr>target := c\<rparr>))"

definition compare_counts ::
  "string \<Rightarrow> string option \<Rightarrow> pytime option \<Rightarrow> pytime option \<Rightarrow> string list option \<Rightarrow> bool
   \<Rightarrow> (elt_pair, int) prog" where
  "compare_counts table_name field_name start_datetime end_datetime timestamp_fields stick_to_dates =
    bindE (on_target (count table_name field_name start_datetime end_datetime
                        timestamp_fields stick_to_dates))
      (\<lambda>target_count.
    bindE (on_source (count table_name field_name start_datetime end_datetime
                        timestamp_fields stick_to_dates))
      (\<lambda>source_count. returnE (target_count - source_count)))"

text \<open>
  A Python set is a list without repetitions; the order in which Python iterates over it
  is not fixed by the language, and the results below do not depend on the one chosen
  here (first occurrence).
\<close>

definition set_of :: "'a list \<Rightarrow> 'a list" where
  "set_of xs = rev (remdups (rev xs))"

definition set_minus :: "'a list \<Rightarrow> 'a list \<Rightarrow> 'a list" where
  "set_minus xs ys = filter (\<lambda>x. x \<notin> set ys) xs"

text \<open>\<open>fetch_rows(all_ids_query)\<close> followed by \<open>map(format_id, rows)\<close>.\<close>

definition fetch_ids ::
  "string \<Rightarrow> pytime option \<Rightarrow> pytime option \<Rightarrow> string list option \<Rightarrow> bool
   \<Rightarrow> (data_client, key list) prog" where
  "fetch_ids all_ids_query start_datetime end_datetime timestamp_fields stick_to_dates =
    execute all_ids_query
      (\<lambda>rs. case selected_by start_datetime end_datetime timestamp_fields stick_to_dates rs of
               Inl err \<Rightarrow> Inl err
             | Inr sel \<Rightarrow> Inr (map (\<lambda>r. format_id (row_id r)) sel))"

definition all_ids_query_text :: "string \<Rightarrow> string \<Rightarrow> string \<Rightarrow> string" where
  "all_ids_query_text table_name key_field where_clause =
     nl @ ''            SELECT '' @ key_field @ '' AS id FROM '' @ table_name
     @ nl @ ''        '' @ where_clause"

text \<open>Lines 239 to 246: both identifier sets are fetched, the target's first.\<close>

definition orphans_by_ids ::
  "string \<Rightarrow> pytime option \<Rightarrow> pytime option \<Rightarrow> string list option \<Rightarrow> bool
   \<Rightarrow> (elt_pair, key list) prog" where
  "orphans_by_ids all_ids_query start_datetime end_datetime timestamp_fields stick_to_dates =
    bindE (on_target (fetch_ids all_ids_query start_datetime end_datetime
                        timestamp_fields stick_to_dates))
      (\<lambda>target_rows.
    bindE (on_source (fetch_ids all_ids_query start_datetime end_datetime
                        timestamp_fields stick_to_dates))
      (\<lambda>source_rows.
    returnE (set_minus (set_of target_rows) (set_of source_rows))))"

definition find_orphans ::
  "string \<Rightarrow> string \<Rightarrow> pytime option \<Rightarrow> pytime option \<Rightarrow> string list option \<Rightarrow> bool
   \<Rightarrow> (elt_pair, key list) prog" where
  "find_orphans table_name key_field start_datetime end_datetime timestamp_fields stick_to_dates =
    bindE (liftE (construct_where_clause_from_timerange
                    start_datetime end_datetime timestamp_fields stick_to_dates))
      (\<lambda>where_clause.
    bindE (if where_clause \<noteq> []
           then bindE (compare_counts table_name None start_datetime end_datetime
                         timestamp_fields stick_to_dates)
                  (\<lambda>count_diff. returnE (count_diff = 0))
           else returnE False)
      (\<lambda>no_difference.
    if no_difference then returnE []
    else orphans_by_ids (all_ids_query_text table_name key_field where_clause)
           start_datetime end_datetime timestamp_fields stick_to_dates))"

fun format_primary_key :: "key \<Rightarrow> string" where
  "format_primary_key (IntKey i) = str_int i"
| "format_primary_key (StrKey s) = sq @ s @ sq"

definition delete_query_text :: "string \<Rightarrow> string \<Rightarrow> string \<Rightarrow> string" where
  "delete_query_text table_name key_field orphan_ids_csv =
     nl @ ''            DELETE '' @ table_name @ '' '' @ nl
     @ ''            WHERE '' @ key_field @ '' IN ('' @ orphan_ids_csv @ '') '' @ nl
     @ ''            ''"

text \<open>
  The store's reading of the delete statement: every row whose key is one of the listed
  values goes. The statement returns no rows.
\<close>

definition run_delete :: "string \<Rightarrow> key list \<Rightarrow> (data_client, unit) prog" where
  "run_delete delete_query orphans =
    (\<lambda>c. (Inr (),
           c\<lparr>rows := filter (\<lambda>r. format_id (row_id r) \<notin> set orphans) (rows c),
             executed := executed c @ [delete_query]\<rparr>))"

definition remove_orphans_from_target ::
  "string \<Rightarrow> string \<Rightarrow> pytime option \<Rightarrow> pytime option \<Rightarrow> string list option \<Rightarrow> bool
   \<Rightarrow> (elt_pair, int) prog" where
  "remove_orphans_from_target table_name key_field start_datetime end_datetime
     timestamp_fields stick_to_dates =
    bindE (find_orphans table_name key_field start_datetime end_datetime
             timestamp_fields stick_to_dates)
      (\<lambda>orphans.
    let num_orphans = int (length orphans);
        orphan_ids_csv = str_join '','' (map format_primary_key orphans)
    in if orphan_ids_csv = [] then returnE num_orphans
       else bindE (on_target (run_delete
                     (delete_query_text table_name key_field orphan_ids_csv) orphans))
              (\<lambda>_. returnE num_orphans))"

section \<open>Removing orphans by bisection of the time range\<close>

text \<open>
  The range that is not given is read from the target: the least of the columns' minima,
  the greatest of their maxima. \<open>MIN\<close> and \<open>MAX\<close> skip NULL and are NULL on no
  value; Python's \<open>min\<close> and \<open>max\<close> return a single value as it is and cannot
  compare \<open>None\<close> with anything.
\<close>

definition extreme_query_text :: "string \<Rightarrow> string \<Rightarrow> string list \<Rightarrow> string" where
  "extreme_query_text agg table_name fs =
     nl @ ''            SELECT '' @ str_join '', '' (map (\<lambda>x. agg @ ''('' @ x @ '') AS '' @ x @ '' '') fs)
     @ nl @ ''            FROM '' @ table_name @ nl @ ''            ''"

definition column_values :: "string \<Rightarrow> row list \<Rightarrow> int list" where
  "column_values f rs = concat (map (\<lambda>r. case map_of (stamps r) f of None \<Rightarrow> [] | Some t \<Rightarrow> [t]) rs)"

fun fold_ints :: "(int \<Rightarrow> int \<Rightarrow> int) \<Rightarrow> int list \<Rightarrow> int option" where
  "fold_ints g [] = None"
| "fold_ints g (x # xs) = Some (fold g xs x)"

definition py_extreme :: "(int \<Rightarrow> int \<Rightarrow> int) \<Rightarrow> int option list \<Rightarrow> error + pytime option" where
  "py_extreme g vs =
    (case vs of
       [v] \<Rightarrow> Inr (map_option DateTime v)
     | _ \<Rightarrow> if None \<in> set vs then Inl TypeError
            else Inr (map_option DateTime (fold_ints g (map the vs))))"

definition fetch_extreme ::
  "string \<Rightarrow> (int \<Rightarrow> int \<Rightarrow> int) \<Rightarrow> string \<Rightarrow> string list option \<Rightarrow> (data_client, pytime option) prog" where
  "fetch_extreme agg g table_name timestamp_fields =
    (case timestamp_fields of
       None \<Rightarrow> raiseE TypeError
     | Some fs \<Rightarrow>
         execute (extreme_query_text agg table_name fs)
           (\<lambda>rs. if fs = [] then Inl QueryError
                  else py_extreme g (map (\<lambda>f. fold_ints g (column_values f rs)) (remdups fs))))"

text \<open>
  \<open>timedelta / 2\<close> rounds to the nearest microsecond, halves to even; adding a
  timedelta to a date adds its whole days only.
\<close>

definition half_rounded :: "int \<Rightarrow> int" where
  "half_rounded us = (let q = us div 2; r = us mod 2 in if r = 1 \<and> q mod 2 = 1 then q + 1 else q)"

fun avg_datetime :: "pytime option \<Rightarrow> pytime option \<Rightarrow> error + pytime" where
  "avg_datetime (Some (DateTime s)) (Some (DateTime e)) = Inr (DateTime (s + half_rounded (e - s)))"
| "avg_datetime (Some (Date s)) (Some (Date e)) =
     Inr (Date (s + half_rounded ((e - s) * us_per_day) div us_per_day))"
| "avg_datetime _ _ = Inl TypeError"

fun timedelta_between :: "pytime option \<Rightarrow> pytime \<Rightarrow> int" where
  "timedelta_between (Some (DateTime s)) (DateTime h) = h - s"
| "timedelta_between (Some (Date s)) (Date h) = (h - s) * us_per_day"
| "timedelta_between _ _ = 0"

definition default_min_segment_size :: int where
  "default_min_segment_size = 10000000"


subsection \<open>The recursion ends\<close>

lemma half_rounded_cases: "half_rounded d = d div 2 \<or> half_rounded d = d div 2 + 1 \<and> d mod 2 = 1"
  by (simp add: half_rounded_def Let_def)

lemma half_rounded_inside:
  assumes "0 < half_rounded d" "half_rounded d \<noteq> d"
  shows "0 < d \<and> half_rounded d < d"
  using assms half_rounded_cases [of d] by presburger

lemma us_per_day_pos: "0 < us_per_day"
  by (simp add: us_per_day_def)

lemma us_per_day_twice: "us_per_day = 2 * 43200000000"
  by (simp add: us_per_day_def)

lemma half_rounded_days: "half_rounded (d * us_per_day) div us_per_day = d div 2"
proof -
  have "half_rounded (d * us_per_day) = d * 43200000000"
    by (simp add: half_rounded_def Let_def us_per_day_twice)
  moreover have "(d * 43200000000) div (2 * 43200000000) = d div (2::int)"
    by (rule div_mult_mult2) simp
  ultimately show ?thesis by (simp only: us_per_day_twice)
qed

lemma bisect_shrinks:
  assumes "avg_datetime start end = Inr halfway"
    and "start \<noteq> Some halfway" and "end \<noteq> Some halfway"
    and "\<not> timedelta_between start halfway < mss" and "0 < mss"
  shows "\<exists>e'. end = Some e'
           \<and> nat (timedelta_between start halfway) < nat (timedelta_between start e')
           \<and> nat (timedelta_between (Some halfway) e') < nat (timedelta_between start e')"
proof (cases "(start, end)" rule: avg_datetime.cases)
  case (1 s e)
  then have h: "halfway = DateTime (s + half_rounded (e - s))" using assms(1) by simp
  have "0 < half_rounded (e - s)" using assms(4,5) 1 h by simp
  moreover have "half_rounded (e - s) \<noteq> e - s" using assms(3) 1 h by auto
  ultimately have "0 < e - s \<and> half_rounded (e - s) < e - s" by (rule half_rounded_inside)
  then show ?thesis using 1 h \<open>0 < half_rounded (e - s)\<close> by simp
next
  case (2 s e)
  define k where "k = (e - s) div 2"
  have h: "halfway = Date (s + k)"
    using assms(1) 2 by (simp add: half_rounded_days k_def)
  have "0 < k * us_per_day" using assms(4,5) 2 h by simp
  then have kpos: "0 < k" using us_per_day_pos by (simp add: zero_less_mult_iff)
  then have klt: "k < e - s" unfolding k_def by linarith
  have a: "k * us_per_day < (e - s) * us_per_day"
    using klt us_per_day_pos by (rule mult_strict_right_mono)
  have "e - s - k < e - s" using kpos by simp
  then have b: "(e - s - k) * us_per_day < (e - s) * us_per_day"
    using us_per_day_pos by (rule mult_strict_right_mono)
  have c: "0 < (e - s) * us_per_day" using a \<open>0 < k * us_per_day\<close> by linarith
  have d: "e - (s + k) = e - s - k" by simp
  show ?thesis using 2 h a b c by (simp add: d)
qed (use assms(1) in auto)

lemma truncate_bound_False: "truncate_bound False x = Inr x"
  by (cases x) simp_all

text \<open>
  The order in which the recursive calls descend: a call with an unset bound comes before
  its calls with both bounds set, a truncating call on datetimes before its calls on
  dates, a call with a segment size that is not positive before its calls with the
  default, and otherwise the range gets shorter.
\<close>

definition bisection_order ::
  "((string \<times> string \<times> pytime option \<times> pytime option \<times> string list option \<times> bool \<times> int \<times> int)
    \<times> (string \<times> string \<times> pytime option \<times> pytime option \<times> string list option \<times> bool \<times> int \<times> int))
   set" where
  "bisection_order = measures [
     \<lambda>(tn, kf, s, e, tf, stick, thres, mss).
        (if s = None then 1 else 0) + (if e = None then 1 else 0),
     \<lambda>(tn, kf, s, e, tf, stick, thres, mss).
        (case s of Some (DateTime _) \<Rightarrow> if stick then 1 else 0 | _ \<Rightarrow> 0),
     \<lambda>(tn, kf, s, e, tf, stick, thres, mss). (if 0 < mss then 0 else 1),
     \<lambda>(tn, kf, s, e, tf, stick, thres, mss).
        (case e of None \<Rightarrow> 0 | Some e' \<Rightarrow> nat (timedelta_between s e'))]"

lemma halves_smaller:
  assumes sd: "sd = None \<or> sd = x" and ed: "ed = None \<or> ed = xa"
    and tb: "truncate_bound stick x = Inr xb" "truncate_bound stick xa = Inr xc"
    and avg: "avg_datetime xb xc = Inr xd"
    and nobase: "\<not> (xb = Some xd \<or> xc = Some xd \<or> timedelta_between xb xd < mss)"
  shows "((tn, kf, xb, Some xd, tf, stick, thres, default_min_segment_size),
          (tn, kf, sd, ed, tf, stick, thres, mss)) \<in> bisection_order
       \<and> ((tn, kf, Some xd, xc, tf, stick, thres, default_min_segment_size),
          (tn, kf, sd, ed, tf, stick, thres, mss)) \<in> bisection_order"
proof -
  obtain xb' xc' where some: "xb = Some xb'" "xc = Some xc'"
    using avg by (cases "(xb, xc)" rule: avg_datetime.cases) auto
  have x: "x = Some xb' \<and> \<not> stick \<or> stick \<and> (\<exists>us d. x = Some (DateTime us) \<and> xb' = Date d)"
    using tb(1) some(1) by (cases x; cases "the x") (auto split: if_splits)
  have xd: "stick \<Longrightarrow> \<exists>d. xd = Date d"
    using avg x some by (cases "(xb, xc)" rule: avg_datetime.cases) auto
  have dmss: "0 < default_min_segment_size" by (simp add: default_min_segment_size_def)
  show ?thesis
  proof (cases "sd = None \<or> ed = None")
    case True
    then show ?thesis using some by (auto simp: bisection_order_def)
  next
    case False
    then have eq: "sd = x" "ed = xa" using sd ed by auto
    show ?thesis
    proof (cases stick)
      case True
      then show ?thesis using x xd eq False some by (auto simp: bisection_order_def)
    next
      case False
      then have same: "x = xb" "xa = xc" using tb by (simp_all add: truncate_bound_False)
      show ?thesis
      proof (cases "0 < mss")
        case True
        from bisect_shrinks [OF avg _ _ _ True] nobase
        show ?thesis using eq same some False dmss
          by (auto simp: bisection_order_def split: pytime.splits)
      next
        case nonpos: False
        then show ?thesis using eq same some False dmss
          by (auto simp: bisection_order_def split: pytime.splits)
      qed
    qed
  qed
qed

lemma resolved_bound:
  "(case given of None \<Rightarrow> m | Some t \<Rightarrow> returnE (Some t)) w = (Inr x, w')
   \<Longrightarrow> given = None \<or> given = x"
  by (auto simp: returnE_def split: option.splits)

lemma first_half_smaller:
  assumes "(case sd of None \<Rightarrow> m1 | Some t \<Rightarrow> returnE (Some t)) w = (Inr x, w')"
    and "(case ed of None \<Rightarrow> m2 | Some t \<Rightarrow> returnE (Some t)) wa = (Inr xa, w'a)"
    and "liftE (truncate_bound stick x) wb = (Inr xb, w'b)"
    and "liftE (truncate_bound stick xa) wc = (Inr xc, w'c)"
    and "liftE (avg_datetime xb xc) wd = (Inr xd, w'd)"
    and "\<not> (xb = Some xd \<or> xc = Some xd \<or> timedelta_between xb xd < mss)"
  shows "((tn, kf, xb, Some xd, tf, stick, thres, default_min_segment_size),
          (tn, kf, sd, ed, tf, stick, thres, mss)) \<in> bisection_order"
  using halves_smaller [OF resolved_bound [OF assms(1)] resolved_bound [OF assms(2)] _ _ _ assms(6)]
    assms(3,4,5)
  by (simp add: liftE_def)

lemma second_half_smaller:
  assumes "(case sd of None \<Rightarrow> m1 | Some t \<Rightarrow> returnE (Some t)) w = (Inr x, w')"
    and "(case ed of None \<Rightarrow> m2 | Some t \<Rightarrow> returnE (Some t)) wa = (Inr xa, w'a)"
    and "liftE (truncate_bound stick x) wb = (Inr xb, w'b)"
    and "liftE (truncate_bound stick xa) wc = (Inr xc, w'c)"
    and "liftE (avg_datetime xb xc) wd = (Inr xd, w'd)"
    and "\<not> (xb = Some xd \<or> xc = Some xd \<or> timedelta_between xb xd < mss)"
  shows "((tn, kf, Some xd, xc, tf, stick, thres, default_min_segment_size),
          (tn, kf, sd, ed, tf, stick, thres, mss)) \<in> bisection_order"
  using halves_smaller [OF resolved_bound [OF assms(1)] resolved_bound [OF assms(2)] _ _ _ assms(6)]
    assms(3,4,5)
  by (simp add: liftE_def)

lemma bindE_cong [fundef_cong]:
  "m1 = m2 \<Longrightarrow> (\<And>x w w'. m2 w = (Inr x, w') \<Longrightarrow> f1 x = f2 x) \<Longrightarrow> bindE m1 f1 = bindE m2 f2"
  by (auto simp: bindE_def fun_eq_iff split: prod.splits sum.splits)

function remove_orphans_from_target_with_binary_search ::
  "string \<Rightarrow> string \<Rightarrow> pytime option \<Rightarrow> pytime option \<Rightarrow> string list option \<Rightarrow> bool
   \<Rightarrow> int \<Rightarrow> int \<Rightarrow> (elt_pair, int) prog" where
  "remove_orphans_from_target_with_binary_search table_name key_field start_datetime end_datetime
     timestamp_fields stick_to_dates thres min_segment_size =
    bindE (case start_datetime of
             None \<Rightarrow> on_target (fetch_extreme ''MIN'' min table_name timestamp_fields)
           | Some s \<Rightarrow> returnE (Some s))
      (\<lambda>start1.
    bindE (case end_datetime of
             None \<Rightarrow> on_target (fetch_extreme ''MAX'' max table_name timestamp_fields)
           | Some e \<Rightarrow> returnE (Some e))
      (\<lambda>end1.
    bindE (liftE (truncate_bound stick_to_dates start1))
      (\<lambda>start.
    bindE (liftE (truncate_bound stick_to_dates end1))
      (\<lambda>end.
    bindE (liftE (avg_datetime start end))
      (\<lambda>halfway.
    bindE (if start \<noteq> Some halfway
           then on_target (count table_name (Some key_field) start (Some halfway)
                             timestamp_fields stick_to_dates)
           else returnE 0)
      (\<lambda>count1.
    bindE (if end \<noteq> Some halfway
           then on_target (count table_name (Some key_field) (Some halfway) end
                             timestamp_fields stick_to_dates)
           else returnE 0)
      (\<lambda>count2.
    if start = Some halfway \<or> end = Some halfway
       \<or> timedelta_between start halfway < min_segment_size
    then remove_orphans_from_target table_name key_field start end
           timestamp_fields stick_to_dates
    else if count1 = 0 \<and> count2 = 0 then returnE 0
    else if count1 < thres \<and> count2 < thres
    then bindE (remove_orphans_from_target table_name key_field start (Some halfway)
                  timestamp_fields stick_to_dates)
           (\<lambda>removed1.
         bindE (remove_orphans_from_target table_name key_field (Some halfway) end
                  timestamp_fields stick_to_dates)
           (\<lambda>removed2. returnE (removed1 + removed2)))
    else if count1 \<ge> thres \<or> count2 \<ge> thres
    then bindE (remove_orphans_from_target_with_binary_search table_name key_field
                  start (Some halfway) timestamp_fields stick_to_dates thres
                  default_min_segment_size)
           (\<lambda>removed1.
         bindE (remove_orphans_from_target_with_binary_search table_name key_field
                  (Some halfway) end timestamp_fields stick_to_dates thres
                  default_min_segment_size)
           (\<lambda>removed2. returnE (0 + (removed1 + removed2))))
    else returnE 0)))))))"
  by pat_completeness auto
termination
proof (relation bisection_order, goal_cases)
  case 1
  show ?case by (simp add: bisection_order_def)
next
  case 2
  then show ?case by (intro first_half_smaller)
next
  case 3
  then show ?case by (intro second_half_smaller)
qed

declare remove_orphans_from_target_with_binary_search.simps [simp del]

section \<open>Stores that differ by orphans only\<close>

text \<open>
  The vocabulary of the sum law. A row is in a range when one of the timestamp columns
  lies in the half-open interval. The stores are reconciled when keys are unique on both
  sides and every source row is a target row as it is; the orphans of a range are then
  the target rows in the range that the source does not have.
\<close>

definition row_key :: "row \<Rightarrow> key" where
  "row_key r = format_id (row_id r)"

definition in_range :: "string list \<Rightarrow> int \<Rightarrow> int \<Rightarrow> row \<Rightarrow> bool" where
  "in_range fs lo hi r = list_ex (column_in lo hi r) fs"

definition reconciled :: "row list \<Rightarrow> row list \<Rightarrow> bool" where
  "reconciled src tgt \<longleftrightarrow>
     distinct (map row_key tgt) \<and> distinct (map row_key src) \<and> set src \<subseteq> set tgt"

definition orphans_in :: "string list \<Rightarrow> int \<Rightarrow> int \<Rightarrow> row list \<Rightarrow> row list \<Rightarrow> row list" where
  "orphans_in fs lo hi src tgt = filter (\<lambda>r. in_range fs lo hi r \<and> r \<notin> set src) tgt"

definition without_orphans :: "string list \<Rightarrow> int \<Rightarrow> int \<Rightarrow> row list \<Rightarrow> row list \<Rightarrow> row list" where
  "without_orphans fs lo hi src tgt = filter (\<lambda>r. \<not> (in_range fs lo hi r \<and> r \<notin> set src)) tgt"


section \<open>Evaluation and the programs' basic laws\<close>

lemma replicate_numeral_unfold: "replicate (numeral k) x = x # replicate (pred_numeral k) x"
  by (simp add: numeral_eq_Suc)

lemmas render_defs = str_datetime_def str_date_def ord2ymd_def us_per_day_def zero_pad_def
  digit_char_def days_before_month_def days_in_month_def Let_def replicate_numeral_unfold

lemma bindE_liftE_Inl: "bindE (liftE (Inl err)) f = raiseE err"
  by (simp add: bindE_def liftE_def raiseE_def)

lemma bindE_liftE_Inr: "bindE (liftE (Inr x)) f = f x"
  by (simp add: bindE_def liftE_def)

lemma bindE_returnE: "bindE (returnE x) f = f x"
  by (simp add: bindE_def returnE_def)

lemma bindE_raiseE: "bindE (raiseE err) f = raiseE err"
  by (simp add: bindE_def raiseE_def)

lemma bindE_Inr: "m w = (Inr x, w') \<Longrightarrow> bindE m f w = f x w'"
  by (simp add: bindE_def)

lemma bindE_Inl: "m w = (Inl err, w') \<Longrightarrow> bindE m f w = (Inl err, w')"
  by (simp add: bindE_def)

lemma returnE_apply: "returnE x w = (Inr x, w)"
  by (simp add: returnE_def)

definition stamped :: "raw_id \<Rightarrow> (string \<times> int) list \<Rightarrow> row" where
  "stamped k ts = \<lparr>row_id = k, stamps = ts\<rparr>"

definition pair_of :: "row list \<Rightarrow> row list \<Rightarrow> elt_pair" where
  "pair_of src tgt = \<lparr>source = \<lparr>rows = src, executed = []\<rparr>, target = \<lparr>rows = tgt, executed = []\<rparr>\<rparr>"

lemmas run_defs = bindE_def returnE_def liftE_def raiseE_def on_target_def on_source_def
  execute_def count_def compare_counts_def find_orphans_def orphans_by_ids_def fetch_ids_def
  selected_by_def construct_where_clause_from_timerange_def set_of_def set_minus_def
  column_in_def column_from_def stamped_def pair_of_def both_bounds_term_def start_term_def
  end_term_def count_query_text_def all_ids_query_text_def delete_query_text_def
  remove_orphans_from_target_def run_delete_def

section \<open>The where clause: what the builder returns\<close>

text \<open>
  Claim C2 (an end bound and no start bound give a well-formed conjunction of
  \<open>column < end\<close>). The builder appends \<open>AND column < 'end'\<close> for each column to a
  clause that is still empty: the text it returns starts with \<open>AND\<close> and has no
  \<open>WHERE\<close>, where the start-only branch beside it starts its clause with \<open>WHERE\<close>.
  The code at an end of 2020-01-02 00:00:00 and the columns created_at and updated_at:
\<close>

theorem end_only_clause_has_no_where:
  "construct_where_clause_from_timerange None (Some (DateTime 63713520000000000))
     (Some [''created_at'', ''updated_at'']) False
   = Inr ('' AND created_at < '' @ sq @ ''2020-01-02 00:00:00'' @ sq
          @ '' AND updated_at < '' @ sq @ ''2020-01-02 00:00:00'' @ sq)"
  by (simp add: construct_where_clause_from_timerange_def end_term_def sq_def render_defs)

text \<open>
  Claim C3 (under date truncation the builder raises exactly when the truncated bounds are
  equal). The builder compares the bounds before it truncates them, so two different
  datetimes of one calendar day pass the check and give the empty range that the error
  message calls meaningless. The code at 2020-01-01 08:00:00 and 2020-01-01 17:30:00:
\<close>

theorem same_date_bounds_do_not_raise:
  "construct_where_clause_from_timerange (Some (DateTime 63713462400000000))
     (Some (DateTime 63713496600000000)) (Some [''created_at'']) True
   = Inr ('' WHERE (created_at >= '' @ sq @ ''2020-01-01'' @ sq
          @ '' AND created_at < '' @ sq @ ''2020-01-01'' @ sq @ '')'')"
  by (simp add: construct_where_clause_from_timerange_def both_bounds_term_def sq_def render_defs)

text \<open>
  Claim C4: when a start or an end bound is given and the timestamp columns are absent or
  empty, the builder raises \<open>ValueError\<close> (the code's configuration error); \<open>count\<close>
  and \<open>find_orphans\<close>, which call the builder first, raise it with no statement executed
  (the state is returned as it was).
\<close>

theorem bound_without_fields_raises:
  assumes "start_datetime \<noteq> None \<or> end_datetime \<noteq> None"
    and "timestamp_fields = None \<or> timestamp_fields = Some []"
  shows "construct_where_clause_from_timerange start_datetime end_datetime timestamp_fields stick_to_dates
           = Inl (ValueError (if stick_to_dates \<and> start_datetime = end_datetime
                              then msg_same_range else msg_no_fields))
       \<and> count table_name field_name start_datetime end_datetime timestamp_fields stick_to_dates c
           = (Inl (ValueError (if stick_to_dates \<and> start_datetime = end_datetime
                               then msg_same_range else msg_no_fields)), c)
       \<and> find_orphans table_name key_field start_datetime end_datetime timestamp_fields stick_to_dates p
           = (Inl (ValueError (if stick_to_dates \<and> start_datetime = end_datetime
                               then msg_same_range else msg_no_fields)), p)"
proof -
  have nf: "\<not> fields_given timestamp_fields" using assms(2) by auto
  have b: "construct_where_clause_from_timerange start_datetime end_datetime timestamp_fields stick_to_dates
           = Inl (ValueError (if stick_to_dates \<and> start_datetime = end_datetime
                              then msg_same_range else msg_no_fields))"
    using assms(1) nf by (auto simp: construct_where_clause_from_timerange_def)
  show ?thesis
    by (simp add: b count_def find_orphans_def bindE_liftE_Inl raiseE_def)
qed

theorem bound_without_fields_raises_witness:
  "construct_where_clause_from_timerange (Some (DateTime 63713520000000000)) None (Some []) False
     = Inl (ValueError msg_no_fields)
   \<and> count ''orders'' None (Some (DateTime 63713520000000000)) None (Some []) False
        \<lparr>rows = [], executed = []\<rparr>
     = (Inl (ValueError msg_no_fields), \<lparr>rows = [], executed = []\<rparr>)"
  using bound_without_fields_raises [of "Some (DateTime 63713520000000000)" None "Some []" False
     "''orders''" None "\<lparr>rows = [], executed = []\<rparr>"]
  by simp

text \<open>
  Claim C5 (with neither bound the builder returns the empty predicate whatever the
  truncation flag). The equality check of the first line holds of two absent bounds, so
  with \<open>stick_to_dates\<close> set the builder raises for every value of the timestamp columns;
  with the flag unset it returns the empty clause.
\<close>

theorem no_bounds_with_truncation_raises:
  "construct_where_clause_from_timerange None None timestamp_fields True
     = Inl (ValueError msg_same_range)
   \<and> construct_where_clause_from_timerange None None timestamp_fields False = Inr []"
  by (cases "fields_given timestamp_fields")
    (simp_all add: construct_where_clause_from_timerange_def)

section \<open>Orphans of a range\<close>

lemma where_clause_nonempty:
  assumes "construct_where_clause_from_timerange start_datetime end_datetime timestamp_fields stick_to_dates = Inr wc"
  shows "wc \<noteq> [] \<longleftrightarrow> start_datetime \<noteq> None \<or> end_datetime \<noteq> None"
  using assms
  by (cases start_datetime; cases end_datetime; cases "fields_given timestamp_fields")
     (auto simp: construct_where_clause_from_timerange_def split: if_splits sum.splits)

lemma on_target_same: "m (target p) = (r, target p) \<Longrightarrow> on_target m p = (r, p)"
  by (simp add: on_target_def)

lemma count_builder_Inl:
  "construct_where_clause_from_timerange s e tf stick = Inl err
   \<Longrightarrow> count tn fld s e tf stick c = (Inl err, c)"
  by (simp add: count_def bindE_liftE_Inl raiseE_def)

lemma count_builder_Inr:
  "construct_where_clause_from_timerange s e tf stick = Inr wc
   \<Longrightarrow> count tn fld s e tf stick c
       = ((case selected_by s e tf stick (rows c) of Inl err \<Rightarrow> Inl err
           | Inr sel \<Rightarrow> Inr (int (length sel))),
          c\<lparr>executed := executed c @ [count_query_text tn fld wc]\<rparr>)"
  by (simp add: count_def bindE_liftE_Inr execute_def)

lemma compare_counts_builder_Inl:
  "construct_where_clause_from_timerange s e tf stick = Inl err
   \<Longrightarrow> compare_counts tn fld s e tf stick p = (Inl err, p)"
  by (simp add: compare_counts_def bindE_def on_target_def count_builder_Inl)

text \<open>
  Claim C6: when a start or an end is given, \<open>find_orphans\<close> first runs
  \<open>compare_counts\<close> over the range (one count statement on the target, one on the
  source); when the difference is zero it returns the empty set in the state
  \<open>compare_counts\<close> left, so neither identifier set is fetched, and otherwise it goes
  on to fetch both. With no bound (and no truncation) it fetches both sets at once and
  compares no counts.
\<close>

theorem find_orphans_count_shortcut:
  assumes "start_datetime \<noteq> None \<or> end_datetime \<noteq> None"
    and "compare_counts table_name None start_datetime end_datetime timestamp_fields stick_to_dates p
           = (Inr count_diff, p')"
  shows "(\<exists>where_clause.
           construct_where_clause_from_timerange start_datetime end_datetime timestamp_fields
             stick_to_dates = Inr where_clause
         \<and> executed (target p') = executed (target p) @ [count_query_text table_name None where_clause]
         \<and> executed (source p') = executed (source p) @ [count_query_text table_name None where_clause]
         \<and> find_orphans table_name key_field start_datetime end_datetime timestamp_fields
              stick_to_dates p
            = (if count_diff = 0 then (Inr [], p')
               else orphans_by_ids (all_ids_query_text table_name key_field where_clause)
                      start_datetime end_datetime timestamp_fields stick_to_dates p'))
    \<and> find_orphans table_name key_field None None timestamp_fields False p
        = orphans_by_ids (all_ids_query_text table_name key_field []) None None
            timestamp_fields False p"
proof -
  have unranged: "find_orphans table_name key_field None None timestamp_fields False p
        = orphans_by_ids (all_ids_query_text table_name key_field []) None None
            timestamp_fields False p"
    by (cases "fields_given timestamp_fields")
      (simp_all add: find_orphans_def construct_where_clause_from_timerange_def
        bindE_liftE_Inr bindE_returnE)
  show ?thesis
  proof (cases "construct_where_clause_from_timerange start_datetime end_datetime
                  timestamp_fields stick_to_dates")
    case (Inl err)
    then show ?thesis using assms(2) by (simp add: compare_counts_builder_Inl)
  next
    case (Inr wc)
    then have ne: "wc \<noteq> []" using assms(1) by (simp add: where_clause_nonempty)
    have logs: "executed (target p') = executed (target p) @ [count_query_text table_name None wc]"
      "executed (source p') = executed (source p) @ [count_query_text table_name None wc]"
      using assms(2)
      by (auto simp: compare_counts_def bindE_def on_target_def on_source_def returnE_def
          count_builder_Inr [OF Inr] split: sum.splits)
    have cc: "bindE (compare_counts table_name None start_datetime end_datetime
                       timestamp_fields stick_to_dates)
                (\<lambda>d. returnE (d = 0)) p = (Inr (count_diff = 0), p')"
      using assms(2) by (simp add: bindE_def returnE_def)
    have step: "\<And>f. bindE (bindE (compare_counts table_name None start_datetime end_datetime
                       timestamp_fields stick_to_dates)
                (\<lambda>d. returnE (d = 0))) f p = f (count_diff = 0) p'"
      using cc by (simp add: bindE_def)
    have "find_orphans table_name key_field start_datetime end_datetime timestamp_fields
                stick_to_dates p
              = (if count_diff = 0 then (Inr [], p')
                 else orphans_by_ids (all_ids_query_text table_name key_field wc)
                        start_datetime end_datetime timestamp_fields stick_to_dates p')"
      by (simp add: find_orphans_def Inr bindE_liftE_Inr ne step returnE_apply)
    then show ?thesis using Inr logs unranged by simp
  qed
qed

theorem find_orphans_count_shortcut_witness:
  "compare_counts ''orders'' None (Some (DateTime 0)) (Some (DateTime 100)) (Some [''created_at''])
      False
      (pair_of [stamped (IntId 2) [(''created_at'', 70)]] [stamped (IntId 1) [(''created_at'', 10)]])
    = (Inr 0, snd (compare_counts ''orders'' None (Some (DateTime 0)) (Some (DateTime 100))
         (Some [''created_at'']) False
         (pair_of [stamped (IntId 2) [(''created_at'', 70)]]
            [stamped (IntId 1) [(''created_at'', 10)]])))
   \<and> find_orphans ''orders'' ''id'' (Some (DateTime 0)) (Some (DateTime 100)) (Some [''created_at''])
      False
      (pair_of [stamped (IntId 2) [(''created_at'', 70)]] [stamped (IntId 1) [(''created_at'', 10)]])
    = (Inr [], snd (compare_counts ''orders'' None (Some (DateTime 0)) (Some (DateTime 100))
         (Some [''created_at'']) False
         (pair_of [stamped (IntId 2) [(''created_at'', 70)]]
            [stamped (IntId 1) [(''created_at'', 10)]])))
   \<and> executed (target (snd (find_orphans ''orders'' ''id'' (Some (DateTime 0)) (Some (DateTime 100))
        (Some [''created_at'']) False
        (pair_of [stamped (IntId 2) [(''created_at'', 70)]]
           [stamped (IntId 1) [(''created_at'', 10)]]))))
    = [nl @ ''        SELECT COUNT(*) AS count FROM orders'' @ nl
       @ ''         WHERE (created_at >= '' @ sq @ ''0001-01-01 00:00:00'' @ sq
       @ '' AND created_at < '' @ sq @ ''0001-01-01 00:00:00.000100'' @ sq @ '')'']"
proof -
  let ?p = "pair_of [stamped (IntId 2) [(''created_at'', 70)]] [stamped (IntId 1) [(''created_at'', 10)]]"
  let ?cc = "compare_counts ''orders'' None (Some (DateTime 0)) (Some (DateTime 100))
         (Some [''created_at'']) False ?p"
  have "fst ?cc = Inr 0" by (simp add: run_defs)
  then have h: "?cc = (Inr 0, snd ?cc)" by (simp add: prod_eq_iff)
  have r: "Some (DateTime 0) \<noteq> None \<or> Some (DateTime 100) \<noteq> None" by simp
  have log: "executed (target (snd ?cc))
    = [nl @ ''        SELECT COUNT(*) AS count FROM orders'' @ nl
       @ ''         WHERE (created_at >= '' @ sq @ ''0001-01-01 00:00:00'' @ sq
       @ '' AND created_at < '' @ sq @ ''0001-01-01 00:00:00.000100'' @ sq @ '')'']"
    by (simp add: run_defs render_defs sq_def nl_def)
  show ?thesis
    using find_orphans_count_shortcut [OF r h, of "''id''"] h log by auto
qed

section \<open>Flat removal\<close>

lemma str_nat_nonempty: "str_nat n \<noteq> []"
  by (subst str_nat.simps) simp

lemma format_primary_key_nonempty: "format_primary_key k \<noteq> []"
  by (cases k) (simp_all add: str_int_def str_nat_nonempty sq_def)

lemma str_join_empty_iff:
  assumes "\<And>x. x \<in> set xs \<Longrightarrow> x \<noteq> []"
  shows "str_join sep xs = [] \<longleftrightarrow> xs = []"
  using assms by (cases "(sep, xs)" rule: str_join.cases) auto

lemma orphan_ids_csv_empty_iff: "str_join '','' (map format_primary_key ks) = [] \<longleftrightarrow> ks = []"
proof -
  have "str_join '','' (map format_primary_key ks) = [] \<longleftrightarrow> map format_primary_key ks = []"
    by (rule str_join_empty_iff) (auto simp: format_primary_key_nonempty)
  then show ?thesis by simp
qed

lemma distinct_set_of: "distinct (set_of xs)"
  by (simp add: set_of_def)

lemma set_set_of: "set (set_of xs) = set xs"
  by (simp add: set_of_def)

lemma distinct_set_minus: "distinct xs \<Longrightarrow> distinct (set_minus xs ys)"
  by (simp add: set_minus_def)

lemma orphans_by_ids_distinct:
  assumes "orphans_by_ids q s e tf stick p = (Inr ks, p')"
  shows "distinct ks"
  using assms
  by (auto simp: orphans_by_ids_def bindE_def returnE_def distinct_set_minus distinct_set_of
      split: prod.splits sum.splits)

lemma find_orphans_distinct:
  assumes "find_orphans tn kf s e tf stick p = (Inr ks, p')"
  shows "distinct ks"
proof (cases "construct_where_clause_from_timerange s e tf stick")
  case (Inl err)
  then show ?thesis using assms by (simp add: find_orphans_def bindE_liftE_Inl raiseE_def)
next
  case (Inr wc)
  show ?thesis using assms orphans_by_ids_distinct
    by (auto simp: find_orphans_def Inr bindE_liftE_Inr bindE_def returnE_def
        split: prod.splits sum.splits if_splits)
qed

lemma run_delete_step:
  "bindE (on_target (run_delete q ks)) (\<lambda>_. returnE n) p'
   = (Inr n, p'\<lparr>target := (target p')
                 \<lparr>rows := filter (\<lambda>r. format_id (row_id r) \<notin> set ks) (rows (target p')),
                  executed := executed (target p') @ [q]\<rparr>\<rparr>)"
  by (simp add: bindE_def on_target_def run_delete_def returnE_def)

lemma remove_orphans_from_target_unfold:
  assumes "find_orphans tn kf s e tf stick p = (Inr ks, p')"
  shows "remove_orphans_from_target tn kf s e tf stick p =
     (if ks = [] then (Inr 0, p')
      else (Inr (int (length ks)),
            p'\<lparr>target := (target p')
                 \<lparr>rows := filter (\<lambda>r. format_id (row_id r) \<notin> set ks) (rows (target p')),
                  executed := executed (target p')
                    @ [delete_query_text tn kf (str_join '','' (map format_primary_key ks))]\<rparr>\<rparr>))"
proof -
  have step: "\<And>f. bindE (find_orphans tn kf s e tf stick) f p = f ks p'"
    using assms by (simp add: bindE_def)
  show ?thesis
    by (simp add: remove_orphans_from_target_def step Let_def orphan_ids_csv_empty_iff
        returnE_apply run_delete_step)
qed

lemma remove_orphans_from_target_fails:
  assumes "find_orphans tn kf s e tf stick p = (Inl err, p')"
  shows "remove_orphans_from_target tn kf s e tf stick p = (Inl err, p')"
  using assms by (simp add: remove_orphans_from_target_def bindE_def)

text \<open>
  Claim C7: \<open>remove_orphans_from_target\<close> computes \<open>find_orphans\<close>. On the empty set
  it returns 0 in the state \<open>find_orphans\<close> left (no statement is added). Otherwise it
  executes one statement on the target, \<open>DELETE table WHERE key IN (values)\<close> with the
  values separated by commas, an integer key as its decimal digits and any other key
  between single quotes; the rows with those keys go, and it returns the number of
  orphan keys.
\<close>

theorem remove_orphans_from_target_delete:
  assumes "find_orphans table_name key_field start_datetime end_datetime timestamp_fields
             stick_to_dates p = (Inr orphans, p')"
  shows "distinct orphans
    \<and> remove_orphans_from_target table_name key_field start_datetime end_datetime
        timestamp_fields stick_to_dates p =
     (if orphans = [] then (Inr 0, p')
      else (Inr (int (length orphans)),
            p'\<lparr>target := (target p')
                 \<lparr>rows := filter (\<lambda>r. format_id (row_id r) \<notin> set orphans) (rows (target p')),
                  executed := executed (target p')
                    @ [nl @ ''            DELETE '' @ table_name @ '' '' @ nl
                       @ ''            WHERE '' @ key_field @ '' IN (''
                       @ str_join '','' (map format_primary_key orphans) @ '') '' @ nl
                       @ ''            '']\<rparr>\<rparr>))
    \<and> (\<forall>i. format_primary_key (IntKey i) = str_int i)
    \<and> (\<forall>s. format_primary_key (StrKey s) = [CHR 0x27] @ s @ [CHR 0x27])"
  using remove_orphans_from_target_unfold [OF assms] find_orphans_distinct [OF assms]
  by (simp add: delete_query_text_def sq_def)

theorem remove_orphans_from_target_delete_witness:
  "find_orphans ''orders'' ''id'' None None None False
     (pair_of (map (\<lambda>k. stamped k []) [IntId 1, IntId 3, IntId 5])
        (map (\<lambda>k. stamped k []) [IntId 1, IntId 2, IntId 3, OtherId ''ab'', IntId 4, IntId 5]))
    = (Inr [IntKey 2, StrKey ''ab'', IntKey 4],
       snd (find_orphans ''orders'' ''id'' None None None False
         (pair_of (map (\<lambda>k. stamped k []) [IntId 1, IntId 3, IntId 5])
            (map (\<lambda>k. stamped k [])
               [IntId 1, IntId 2, IntId 3, OtherId ''ab'', IntId 4, IntId 5]))))
   \<and> fst (remove_orphans_from_target ''orders'' ''id'' None None None False
     (pair_of (map (\<lambda>k. stamped k []) [IntId 1, IntId 3, IntId 5])
        (map (\<lambda>k. stamped k []) [IntId 1, IntId 2, IntId 3, OtherId ''ab'', IntId 4, IntId 5])))
    = Inr 3
   \<and> target (snd (remove_orphans_from_target ''orders'' ''id'' None None None False
     (pair_of (map (\<lambda>k. stamped k []) [IntId 1, IntId 3, IntId 5])
        (map (\<lambda>k. stamped k []) [IntId 1, IntId 2, IntId 3, OtherId ''ab'', IntId 4, IntId 5]))))
    = \<lparr>rows = map (\<lambda>k. stamped k []) [IntId 1, IntId 3, IntId 5],
       executed =
         [nl @ ''            SELECT id AS id FROM orders'' @ nl @ ''        '',
          nl @ ''            DELETE orders '' @ nl
          @ ''            WHERE id IN (2,'' @ sq @ ''ab'' @ sq @ '',4) '' @ nl
          @ ''            '']\<rparr>"
proof -
  let ?p = "pair_of (map (\<lambda>k. stamped k []) [IntId 1, IntId 3, IntId 5])
        (map (\<lambda>k. stamped k []) [IntId 1, IntId 2, IntId 3, OtherId ''ab'', IntId 4, IntId 5])"
  let ?fo = "find_orphans ''orders'' ''id'' None None None False ?p"
  have "fst ?fo = Inr [IntKey 2, StrKey ''ab'', IntKey 4]" by (simp add: run_defs)
  then have h: "?fo = (Inr [IntKey 2, StrKey ''ab'', IntKey 4], snd ?fo)"
    by (simp add: prod_eq_iff)
  have st: "target (snd ?fo)
      = \<lparr>rows = map (\<lambda>k. stamped k [])
                  [IntId 1, IntId 2, IntId 3, OtherId ''ab'', IntId 4, IntId 5],
         executed = [nl @ ''            SELECT id AS id FROM orders'' @ nl @ ''        '']\<rparr>"
    by (simp add: run_defs)
  show ?thesis
    using remove_orphans_from_target_delete [OF h] h st
    by (simp add: str_int_def digit_char_def sq_def stamped_def)
qed

text \<open>
  Claim C10: the count \<open>remove_orphans_from_target\<close> returns is the size of the set
  \<open>find_orphans\<close> computed; the delete statement's answer is not read. The rows that go
  are the rows whose key is in the set, which can be more than the keys (the witness: two
  target rows with the key 7, one orphan key, two rows gone, 1 returned).
\<close>

theorem removed_count_is_orphan_set_size:
  assumes "find_orphans table_name key_field start_datetime end_datetime timestamp_fields
             stick_to_dates p = (Inr orphans, p')"
  shows "fst (remove_orphans_from_target table_name key_field start_datetime end_datetime
                timestamp_fields stick_to_dates p) = Inr (int (card (set orphans)))
    \<and> length (rows (target (snd (remove_orphans_from_target table_name key_field start_datetime
                end_datetime timestamp_fields stick_to_dates p))))
        + length (filter (\<lambda>r. format_id (row_id r) \<in> set orphans) (rows (target p')))
      = length (rows (target p'))"
proof -
  have "card (set orphans) = length orphans"
    using find_orphans_distinct [OF assms] by (rule distinct_card)
  moreover have "length (filter (\<lambda>r. format_id (row_id r) \<notin> set orphans) (rows (target p')))
        + length (filter (\<lambda>r. format_id (row_id r) \<in> set orphans) (rows (target p')))
      = length (rows (target p'))"
    using sum_length_filter_compl [of "\<lambda>r. format_id (row_id r) \<in> set orphans" "rows (target p')"]
    by simp
  ultimately show ?thesis
    by (simp add: remove_orphans_from_target_unfold [OF assms])
qed


theorem removed_count_is_orphan_set_size_witness:
  "find_orphans ''orders'' ''id'' None None None False
       (pair_of [] [stamped (IntId 7) [], stamped (IntId 7) []])
     = (Inr [IntKey 7], snd (find_orphans ''orders'' ''id'' None None None False
          (pair_of [] [stamped (IntId 7) [], stamped (IntId 7) []])))
   \<and> fst (remove_orphans_from_target ''orders'' ''id'' None None None False
       (pair_of [] [stamped (IntId 7) [], stamped (IntId 7) []])) = Inr 1
   \<and> rows (target (snd (remove_orphans_from_target ''orders'' ''id'' None None None False
       (pair_of [] [stamped (IntId 7) [], stamped (IntId 7) []])))) = []"
proof -
  let ?p = "pair_of [] [stamped (IntId 7) [], stamped (IntId 7) []]"
  let ?fo = "find_orphans ''orders'' ''id'' None None None False ?p"
  have "fst ?fo = Inr [IntKey 7]" by (simp add: run_defs)
  then have h: "?fo = (Inr [IntKey 7], snd ?fo)" by (simp add: prod_eq_iff)
  have st: "rows (target (snd ?fo)) = [stamped (IntId 7) [], stamped (IntId 7) []]"
    by (simp add: run_defs)
  show ?thesis
    using removed_count_is_orphan_set_size [OF h] h st by (simp add: stamped_def)
qed

section \<open>The bisection\<close>

lemma bisect_unfold:
  assumes "avg_datetime (Some s) (Some e) = Inr h"
  shows "remove_orphans_from_target_with_binary_search tn kf (Some s) (Some e) tf False thres mss =
    bindE (if s \<noteq> h then on_target (count tn (Some kf) (Some s) (Some h) tf False) else returnE 0)
      (\<lambda>count1.
    bindE (if e \<noteq> h then on_target (count tn (Some kf) (Some h) (Some e) tf False) else returnE 0)
      (\<lambda>count2.
    if s = h \<or> e = h \<or> timedelta_between (Some s) h < mss
    then remove_orphans_from_target tn kf (Some s) (Some e) tf False
    else if count1 = 0 \<and> count2 = 0 then returnE 0
    else if count1 < thres \<and> count2 < thres
    then bindE (remove_orphans_from_target tn kf (Some s) (Some h) tf False)
           (\<lambda>removed1.
         bindE (remove_orphans_from_target tn kf (Some h) (Some e) tf False)
           (\<lambda>removed2. returnE (removed1 + removed2)))
    else if count1 \<ge> thres \<or> count2 \<ge> thres
    then bindE (remove_orphans_from_target_with_binary_search tn kf (Some s) (Some h) tf False
                  thres default_min_segment_size)
           (\<lambda>removed1.
         bindE (remove_orphans_from_target_with_binary_search tn kf (Some h) (Some e) tf False
                  thres default_min_segment_size)
           (\<lambda>removed2. returnE (0 + (removed1 + removed2))))
    else returnE 0))"
  by (subst remove_orphans_from_target_with_binary_search.simps)
     (simp add: assms bindE_returnE bindE_liftE_Inr truncate_bound_False)

lemma half_rounded_range:
  assumes "0 < d"
  shows "0 \<le> half_rounded d \<and> half_rounded d < d \<and> (1 < d \<longrightarrow> 0 < half_rounded d)
         \<and> (d = 1 \<longrightarrow> half_rounded d = 0)"
proof (cases "d = 1")
  case True
  then show ?thesis by (simp add: half_rounded_def)
next
  case False
  then have "2 \<le> d" using assms by simp
  then show ?thesis using half_rounded_cases [of d] by presburger
qed

text \<open>
  Claim C8: on a range with the start before the end the recursion ends. The call is in
  the domain on which the recursive calls are well founded (\<open>_dom\<close> is the accessible
  part of the call relation of the definition); the midpoint is never after the end and
  is strictly between the bounds unless they are one microsecond apart, when it is the
  start; in base case A (midpoint at a bound, or first half shorter than the segment
  size) the call is the two counts, whose results are not looked at, followed by the
  flat removal over the whole range; outside base case A both halves come before the
  range in \<open>bisection_order\<close>, which is well founded.
\<close>

theorem bisection_terminates:
  assumes "s < e"
  shows "remove_orphans_from_target_with_binary_search_dom
           (tn, kf, Some (DateTime s), Some (DateTime e), tf, stick, thres, mss)
    \<and> (\<exists>h. avg_datetime (Some (DateTime s)) (Some (DateTime e)) = Inr (DateTime h)
           \<and> s \<le> h \<and> h < e \<and> (1 < e - s \<longrightarrow> s < h) \<and> (e - s = 1 \<longrightarrow> h = s)
           \<and> (h = s \<or> h = e \<or> h - s < mss \<longrightarrow>
                remove_orphans_from_target_with_binary_search tn kf
                  (Some (DateTime s)) (Some (DateTime e)) tf False thres mss
                = bindE (if s \<noteq> h
                         then on_target (count tn (Some kf) (Some (DateTime s)) (Some (DateTime h))
                                           tf False)
                         else returnE 0)
                    (\<lambda>count1.
                  bindE (if e \<noteq> h
                         then on_target (count tn (Some kf) (Some (DateTime h)) (Some (DateTime e))
                                           tf False)
                         else returnE 0)
                    (\<lambda>count2.
                  remove_orphans_from_target tn kf (Some (DateTime s)) (Some (DateTime e))
                    tf False)))
           \<and> (\<not> (h = s \<or> h = e \<or> h - s < mss) \<longrightarrow>
                ((tn, kf, Some (DateTime s), Some (DateTime h), tf, False, thres,
                  default_min_segment_size),
                 (tn, kf, Some (DateTime s), Some (DateTime e), tf, False, thres, mss))
                  \<in> bisection_order
              \<and> ((tn, kf, Some (DateTime h), Some (DateTime e), tf, False, thres,
                  default_min_segment_size),
                 (tn, kf, Some (DateTime s), Some (DateTime e), tf, False, thres, mss))
                  \<in> bisection_order))
    \<and> wf bisection_order"
proof -
  have wf: "wf bisection_order" by (simp add: bisection_order_def)
  have "All remove_orphans_from_target_with_binary_search_dom"
  proof (rule "remove_orphans_from_target_with_binary_search.termination" [of bisection_order],
      goal_cases)
    case 1
    show ?case by (rule wf)
  next
    case 2
    then show ?case by (intro first_half_smaller)
  next
    case 3
    then show ?case by (intro second_half_smaller)
  qed
  then have dom: "remove_orphans_from_target_with_binary_search_dom
           (tn, kf, Some (DateTime s), Some (DateTime e), tf, stick, thres, mss)" by simp
  define h where "h = s + half_rounded (e - s)"
  have avg: "avg_datetime (Some (DateTime s)) (Some (DateTime e)) = Inr (DateTime h)"
    by (simp add: h_def)
  have rng: "s \<le> h \<and> h < e \<and> (1 < e - s \<longrightarrow> s < h) \<and> (e - s = 1 \<longrightarrow> h = s)"
    using half_rounded_range [of "e - s"] assms by (simp add: h_def)
  have baseA: "remove_orphans_from_target_with_binary_search tn kf
                  (Some (DateTime s)) (Some (DateTime e)) tf False thres mss
                = bindE (if s \<noteq> h
                         then on_target (count tn (Some kf) (Some (DateTime s)) (Some (DateTime h))
                                           tf False)
                         else returnE 0)
                    (\<lambda>count1.
                  bindE (if e \<noteq> h
                         then on_target (count tn (Some kf) (Some (DateTime h)) (Some (DateTime e))
                                           tf False)
                         else returnE 0)
                    (\<lambda>count2.
                  remove_orphans_from_target tn kf (Some (DateTime s)) (Some (DateTime e))
                    tf False))"
    if a: "h = s \<or> h = e \<or> h - s < mss"
  proof -
    have cond: "s = h \<or> e = h \<or> timedelta_between (Some (DateTime s)) (DateTime h) < mss"
      using a by auto
    show ?thesis
      by (subst bisect_unfold [OF avg]) (simp only: cond if_True pytime.inject)
  qed
  have rec: "\<not> (h = s \<or> h = e \<or> h - s < mss) \<Longrightarrow>
                ((tn, kf, Some (DateTime s), Some (DateTime h), tf, False, thres,
                  default_min_segment_size),
                 (tn, kf, Some (DateTime s), Some (DateTime e), tf, False, thres, mss))
                  \<in> bisection_order
              \<and> ((tn, kf, Some (DateTime h), Some (DateTime e), tf, False, thres,
                  default_min_segment_size),
                 (tn, kf, Some (DateTime s), Some (DateTime e), tf, False, thres, mss))
                  \<in> bisection_order"
    by (rule halves_smaller [OF _ _ _ _ avg]) (auto simp: truncate_bound_False)
  show ?thesis using dom avg rng baseA rec wf by blast
qed

theorem bisection_terminates_witness:
  "(0::int) < 40000000
   \<and> remove_orphans_from_target_with_binary_search_dom
        (''orders'', ''id'', Some (DateTime 0), Some (DateTime 40000000), Some [''created_at''],
         False, 10000, default_min_segment_size)
   \<and> avg_datetime (Some (DateTime 0)) (Some (DateTime 40000000)) = Inr (DateTime 20000000)
   \<and> ((''orders'', ''id'', Some (DateTime 0), Some (DateTime 20000000), Some [''created_at''],
         False, 10000, default_min_segment_size),
        (''orders'', ''id'', Some (DateTime 0), Some (DateTime 40000000), Some [''created_at''],
         False, 10000, default_min_segment_size)) \<in> bisection_order"
proof -
  have lt: "(0::int) < 40000000" by simp
  have avg: "avg_datetime (Some (DateTime 0)) (Some (DateTime 40000000)) = Inr (DateTime 20000000)"
    by (simp add: half_rounded_def)
  show ?thesis
    using bisection_terminates [OF lt, of "''orders''" "''id''" "Some [''created_at'']" False 10000
        default_min_segment_size] avg
    by (auto simp: default_min_segment_size_def)
qed

text \<open>
  Claim C9: \<open>min_segment_size\<close> is read once, in the exit test of the call that
  received it: two calls whose sizes give the same answer to that test are the same
  program, whatever the sizes are otherwise, and the two recursive calls are made with
  the threshold and the default of 10 seconds (in microseconds). In the witness a size of
  20 seconds on a range of 40 seconds does not keep the first half of 20 seconds from
  being bisected again: the fifth statement on the target counts the keys of the first 5
  seconds, which only the call on the first quarter issues.
\<close>

theorem min_segment_size_only_at_top:
  assumes "avg_datetime (Some s) (Some e) = Inr h"
  shows "((timedelta_between (Some s) h < mss1) = (timedelta_between (Some s) h < mss2) \<longrightarrow>
          remove_orphans_from_target_with_binary_search tn kf (Some s) (Some e) tf False thres mss1
          = remove_orphans_from_target_with_binary_search tn kf (Some s) (Some e) tf False thres mss2)
    \<and> remove_orphans_from_target_with_binary_search tn kf (Some s) (Some e) tf False thres mss =
      bindE (if s \<noteq> h then on_target (count tn (Some kf) (Some s) (Some h) tf False) else returnE 0)
        (\<lambda>count1.
      bindE (if e \<noteq> h then on_target (count tn (Some kf) (Some h) (Some e) tf False) else returnE 0)
        (\<lambda>count2.
      if s = h \<or> e = h \<or> timedelta_between (Some s) h < mss
      then remove_orphans_from_target tn kf (Some s) (Some e) tf False
      else if count1 = 0 \<and> count2 = 0 then returnE 0
      else if count1 < thres \<and> count2 < thres
      then bindE (remove_orphans_from_target tn kf (Some s) (Some h) tf False)
             (\<lambda>removed1.
           bindE (remove_orphans_from_target tn kf (Some h) (Some e) tf False)
             (\<lambda>removed2. returnE (removed1 + removed2)))
      else if count1 \<ge> thres \<or> count2 \<ge> thres
      then bindE (remove_orphans_from_target_with_binary_search tn kf (Some s) (Some h) tf False
                    thres default_min_segment_size)
             (\<lambda>removed1.
           bindE (remove_orphans_from_target_with_binary_search tn kf (Some h) (Some e) tf False
                    thres default_min_segment_size)
             (\<lambda>removed2. returnE (0 + (removed1 + removed2))))
      else returnE 0))
    \<and> default_min_segment_size = 10 * 1000000"
proof -
  have "remove_orphans_from_target_with_binary_search tn kf (Some s) (Some e) tf False thres mss1
          = remove_orphans_from_target_with_binary_search tn kf (Some s) (Some e) tf False thres mss2"
    if "(timedelta_between (Some s) h < mss1) = (timedelta_between (Some s) h < mss2)"
    by (simp only: bisect_unfold [OF assms] that)
  then show ?thesis
    using bisect_unfold [OF assms, of tn kf tf thres mss]
    by (simp add: default_min_segment_size_def)
qed

theorem min_segment_size_only_at_top_witness:
  "avg_datetime (Some (DateTime 0)) (Some (DateTime 40000000)) = Inr (DateTime 20000000)
   \<and> remove_orphans_from_target_with_binary_search ''orders'' ''id'' (Some (DateTime 0))
       (Some (DateTime 40000000)) (Some [''created_at'']) False 1 5000000
     = remove_orphans_from_target_with_binary_search ''orders'' ''id'' (Some (DateTime 0))
       (Some (DateTime 40000000)) (Some [''created_at'']) False 1 20000000
   \<and> fst (remove_orphans_from_target_with_binary_search ''orders'' ''id''
          (Some (DateTime 0)) (Some (DateTime 40000000)) (Some [''created_at'']) False 1 20000000
          (pair_of [] [stamped (IntId 1) [(''created_at'', 1000000)],
                       stamped (IntId 2) [(''created_at'', 11000000)]])) = Inr 2
   \<and> executed (target (snd (remove_orphans_from_target_with_binary_search ''orders'' ''id''
          (Some (DateTime 0)) (Some (DateTime 40000000)) (Some [''created_at'']) False 1 20000000
          (pair_of [] [stamped (IntId 1) [(''created_at'', 1000000)],
                       stamped (IntId 2) [(''created_at'', 11000000)]])))) ! 4
     = nl @ ''        SELECT COUNT(id) AS count FROM orders'' @ nl
       @ ''         WHERE (created_at >= '' @ sq @ ''0001-01-01 00:00:00'' @ sq
       @ '' AND created_at < '' @ sq @ ''0001-01-01 00:00:05'' @ sq @ '')''"
proof -
  have avg: "avg_datetime (Some (DateTime 0)) (Some (DateTime 40000000)) = Inr (DateTime 20000000)"
    by (simp add: half_rounded_def)
  let ?run = "remove_orphans_from_target_with_binary_search ''orders'' ''id''
          (Some (DateTime 0)) (Some (DateTime 40000000)) (Some [''created_at'']) False 1 20000000
          (pair_of [] [stamped (IntId 1) [(''created_at'', 1000000)],
                       stamped (IntId 2) [(''created_at'', 11000000)]])"
  have run: "fst ?run = Inr 2"
    "executed (target (snd ?run)) ! 4
     = nl @ ''        SELECT COUNT(id) AS count FROM orders'' @ nl
       @ ''         WHERE (created_at >= '' @ sq @ ''0001-01-01 00:00:00'' @ sq
       @ '' AND created_at < '' @ sq @ ''0001-01-01 00:00:05'' @ sq @ '')''"
    by (simp_all add: remove_orphans_from_target_with_binary_search.simps run_defs
        half_rounded_def default_min_segment_size_def truncate_bound_False str_int_def
        render_defs sq_def nl_def del: set_filter)
  show ?thesis
    using min_segment_size_only_at_top [OF avg, of 5000000 20000000 "''orders''" "''id''"
        "Some [''created_at'']" 1] avg run
    by simp
qed

section \<open>The sum law\<close>

lemma builder_both_bounds:
  "fs \<noteq> [] \<Longrightarrow>
   construct_where_clause_from_timerange (Some s) (Some e) (Some fs) False
   = Inr ('' WHERE '' @ str_join '' OR '' (map (both_bounds_term s e) fs))"
  by (simp add: construct_where_clause_from_timerange_def)

lemma selected_by_both:
  "selected_by (Some (DateTime a)) (Some (DateTime b)) (Some fs) False rs
   = Inr (filter (in_range fs a b) rs)"
  by (simp add: selected_by_def in_range_def [abs_def])

lemma bindE_fst: "fst (m w) = Inr x \<Longrightarrow> bindE m f w = f x (snd (m w))"
  by (cases "m w") (simp add: bindE_def)

lemma count_range:
  assumes "fs \<noteq> []"
  shows "fst (count tn fld (Some (DateTime a)) (Some (DateTime b)) (Some fs) False c)
           = Inr (int (length (filter (in_range fs a b) (rows c))))
       \<and> rows (snd (count tn fld (Some (DateTime a)) (Some (DateTime b)) (Some fs) False c)) = rows c"
  by (simp add: count_builder_Inr [OF builder_both_bounds [OF assms]] selected_by_both)

lemma target_count_range:
  assumes "fs \<noteq> []"
  shows "fst (on_target (count tn fld (Some (DateTime a)) (Some (DateTime b)) (Some fs) False) p)
           = Inr (int (length (filter (in_range fs a b) (rows (target p)))))
     \<and> rows (source (snd (on_target (count tn fld (Some (DateTime a)) (Some (DateTime b))
                                    (Some fs) False) p))) = rows (source p)
     \<and> rows (target (snd (on_target (count tn fld (Some (DateTime a)) (Some (DateTime b))
                                    (Some fs) False) p))) = rows (target p)"
  using count_range [OF assms, of tn fld a b "target p"]
  by (auto simp: on_target_def split: prod.splits)

lemma source_count_range:
  assumes "fs \<noteq> []"
  shows "fst (on_source (count tn fld (Some (DateTime a)) (Some (DateTime b)) (Some fs) False) p)
           = Inr (int (length (filter (in_range fs a b) (rows (source p)))))
     \<and> rows (source (snd (on_source (count tn fld (Some (DateTime a)) (Some (DateTime b))
                                    (Some fs) False) p))) = rows (source p)
     \<and> rows (target (snd (on_source (count tn fld (Some (DateTime a)) (Some (DateTime b))
                                    (Some fs) False) p))) = rows (target p)"
  using count_range [OF assms, of tn fld a b "source p"]
  by (auto simp: on_source_def split: prod.splits)

lemma compare_counts_range:
  assumes "fs \<noteq> []"
  shows "fst (compare_counts tn fld (Some (DateTime a)) (Some (DateTime b)) (Some fs) False p)
           = Inr (int (length (filter (in_range fs a b) (rows (target p))))
                  - int (length (filter (in_range fs a b) (rows (source p)))))
     \<and> rows (source (snd (compare_counts tn fld (Some (DateTime a)) (Some (DateTime b))
                             (Some fs) False p))) = rows (source p)
     \<and> rows (target (snd (compare_counts tn fld (Some (DateTime a)) (Some (DateTime b))
                             (Some fs) False p))) = rows (target p)"
proof -
  let ?ct = "on_target (count tn fld (Some (DateTime a)) (Some (DateTime b)) (Some fs) False)"
  let ?cs = "on_source (count tn fld (Some (DateTime a)) (Some (DateTime b)) (Some fs) False)"
  note t = target_count_range [OF assms, of tn fld a b p]
  note s = source_count_range [OF assms, of tn fld a b "snd (?ct p)"]
  have "compare_counts tn fld (Some (DateTime a)) (Some (DateTime b)) (Some fs) False p
        = (Inr (int (length (filter (in_range fs a b) (rows (target p))))
                  - int (length (filter (in_range fs a b) (rows (source p))))),
           snd (?cs (snd (?ct p))))"
    unfolding compare_counts_def
    using t s by (simp add: bindE_fst returnE_apply)
  then show ?thesis using t s by simp
qed

lemma orphans_by_ids_range:
  "fst (orphans_by_ids q (Some (DateTime a)) (Some (DateTime b)) (Some fs) False p)
     = Inr (set_minus (set_of (map row_key (filter (in_range fs a b) (rows (target p)))))
                      (set_of (map row_key (filter (in_range fs a b) (rows (source p))))))
   \<and> rows (source (snd (orphans_by_ids q (Some (DateTime a)) (Some (DateTime b)) (Some fs)
                           False p))) = rows (source p)
   \<and> rows (target (snd (orphans_by_ids q (Some (DateTime a)) (Some (DateTime b)) (Some fs)
                           False p))) = rows (target p)"
  by (simp add: orphans_by_ids_def fetch_ids_def execute_def bindE_def returnE_def on_target_def
      on_source_def selected_by_both row_key_def [abs_def])


lemma set_of_distinct: "distinct xs \<Longrightarrow> set_of xs = xs"
  by (simp add: set_of_def distinct_remdups_id)

lemma reconciled_distinct_rows:
  assumes "reconciled src tgt"
  shows "distinct tgt" and "distinct src"
  using assms by (auto simp: reconciled_def distinct_map)

lemma reconciled_key_inj:
  assumes "reconciled src tgt" "r \<in> set tgt" "r' \<in> set tgt" "row_key r = row_key r'"
  shows "r = r'"
  using assms by (auto simp: reconciled_def distinct_map dest: inj_onD)

lemma orphan_key_iff:
  assumes rec: "reconciled src tgt" and r: "r \<in> set tgt" and inr: "P r"
  shows "row_key r \<notin> set (map row_key (filter P src)) \<longleftrightarrow> r \<notin> set src"
proof
  assume "row_key r \<notin> set (map row_key (filter P src))"
  then show "r \<notin> set src" using inr by auto
next
  assume out: "r \<notin> set src"
  show "row_key r \<notin> set (map row_key (filter P src))"
  proof
    assume "row_key r \<in> set (map row_key (filter P src))"
    then obtain r' where r': "r' \<in> set src" "row_key r = row_key r'" by auto
    then have "r' \<in> set tgt" using rec by (auto simp: reconciled_def)
    then have "r = r'" using reconciled_key_inj [OF rec r _ r'(2)] by simp
    then show False using out r'(1) by simp
  qed
qed

lemma orphan_keys_are_orphan_rows:
  assumes rec: "reconciled src tgt"
  shows "set_minus (set_of (map row_key (filter (in_range fs a b) tgt)))
                   (set_of (map row_key (filter (in_range fs a b) src)))
         = map row_key (orphans_in fs a b src tgt)"
proof -
  have d: "distinct (map row_key (filter (in_range fs a b) tgt))"
    using rec by (simp add: reconciled_def distinct_map_filter)
  have "filter (\<lambda>k. k \<notin> set (map row_key (filter (in_range fs a b) src)))
          (map row_key (filter (in_range fs a b) tgt))
        = map row_key (filter (\<lambda>r. row_key r \<notin> set (map row_key (filter (in_range fs a b) src)))
            (filter (in_range fs a b) tgt))"
    by (simp add: filter_map comp_def)
  also have "filter (\<lambda>r. row_key r \<notin> set (map row_key (filter (in_range fs a b) src)))
            (filter (in_range fs a b) tgt)
        = filter (\<lambda>r. in_range fs a b r \<and> r \<notin> set src) tgt"
    unfolding filter_filter
    by (rule filter_cong [OF refl]) (use orphan_key_iff [OF rec] in blast)
  finally show ?thesis
    by (simp add: set_minus_def set_of_distinct [OF d] set_set_of orphans_in_def)
qed

lemma count_difference_is_orphan_count:
  assumes rec: "reconciled src tgt"
  shows "int (length (filter P tgt)) - int (length (filter P src))
         = int (length (filter (\<lambda>r. P r \<and> r \<notin> set src) tgt))"
proof -
  have dt: "distinct tgt" and ds: "distinct src"
    using reconciled_distinct_rows [OF rec] by auto
  have sub: "set src \<subseteq> set tgt" using rec by (simp add: reconciled_def)
  have "length (filter P tgt)
        = length (filter (\<lambda>r. r \<in> set src) (filter P tgt))
          + length (filter (\<lambda>r. r \<notin> set src) (filter P tgt))"
    using sum_length_filter_compl [of "\<lambda>r. r \<in> set src" "filter P tgt"] by simp
  moreover have "length (filter (\<lambda>r. r \<in> set src) (filter P tgt)) = length (filter P src)"
  proof -
    have "set (filter (\<lambda>r. r \<in> set src) (filter P tgt)) = set (filter P src)"
      using sub by auto
    moreover have "distinct (filter (\<lambda>r. r \<in> set src) (filter P tgt))" "distinct (filter P src)"
      using dt ds by simp_all
    ultimately show ?thesis by (metis distinct_card)
  qed
  moreover have "filter (\<lambda>r. r \<notin> set src) (filter P tgt) = filter (\<lambda>r. P r \<and> r \<notin> set src) tgt"
    by (simp add: conj_commute)
  ultimately show ?thesis by simp
qed

lemma delete_orphan_keys:
  assumes rec: "reconciled src tgt"
  shows "filter (\<lambda>r. format_id (row_id r) \<notin> set (map row_key (orphans_in fs a b src tgt))) tgt
         = without_orphans fs a b src tgt"
  unfolding without_orphans_def
proof (rule filter_cong [OF refl])
  fix r assume r: "r \<in> set tgt"
  have "row_key r \<in> set (map row_key (orphans_in fs a b src tgt))
        \<longleftrightarrow> in_range fs a b r \<and> r \<notin> set src"
  proof
    assume "row_key r \<in> set (map row_key (orphans_in fs a b src tgt))"
    then obtain r' where r': "r' \<in> set (orphans_in fs a b src tgt)" "row_key r = row_key r'"
      by auto
    then have "r' \<in> set tgt" by (simp add: orphans_in_def)
    then have "r = r'" using reconciled_key_inj [OF rec r _ r'(2)] by simp
    then show "in_range fs a b r \<and> r \<notin> set src" using r'(1) by (simp add: orphans_in_def)
  next
    assume "in_range fs a b r \<and> r \<notin> set src"
    then show "row_key r \<in> set (map row_key (orphans_in fs a b src tgt))"
      using r by (simp add: orphans_in_def)
  qed
  then show "(format_id (row_id r) \<notin> set (map row_key (orphans_in fs a b src tgt)))
             = (\<not> (in_range fs a b r \<and> r \<notin> set src))"
    by (simp add: row_key_def)
qed

lemma reconciled_without_orphans:
  assumes "reconciled src tgt"
  shows "reconciled src (without_orphans fs a b src tgt)"
  using assms by (auto simp: reconciled_def without_orphans_def distinct_map_filter)


lemma find_orphans_reconciled:
  assumes fs: "fs \<noteq> []" and rec: "reconciled (rows (source p)) (rows (target p))"
  shows "fst (find_orphans tn kf (Some (DateTime a)) (Some (DateTime b)) (Some fs) False p)
           = Inr (map row_key (orphans_in fs a b (rows (source p)) (rows (target p))))
     \<and> rows (source (snd (find_orphans tn kf (Some (DateTime a)) (Some (DateTime b)) (Some fs)
                             False p))) = rows (source p)
     \<and> rows (target (snd (find_orphans tn kf (Some (DateTime a)) (Some (DateTime b)) (Some fs)
                             False p))) = rows (target p)"
proof -
  let ?cc = "compare_counts tn None (Some (DateTime a)) (Some (DateTime b)) (Some fs) False"
  let ?wc = "'' WHERE '' @ str_join '' OR '' (map (both_bounds_term (DateTime a) (DateTime b)) fs)"
  let ?ids = "orphans_by_ids (all_ids_query_text tn kf ?wc) (Some (DateTime a)) (Some (DateTime b))
                (Some fs) False"
  let ?n = "int (length (orphans_in fs a b (rows (source p)) (rows (target p))))"
  note cc = compare_counts_range [OF fs, of tn None a b p]
  have diff: "fst (?cc p) = Inr ?n"
    using cc count_difference_is_orphan_count [OF rec, of "in_range fs a b"]
    by (simp add: orphans_in_def)
  have flag: "fst (bindE ?cc (\<lambda>count_diff. returnE (count_diff = 0)) p) = Inr (?n = 0)"
    and flag_state: "snd (bindE ?cc (\<lambda>count_diff. returnE (count_diff = 0)) p) = snd (?cc p)"
    by (simp_all add: bindE_fst [of ?cc p, OF diff] returnE_apply)
  have unfold: "find_orphans tn kf (Some (DateTime a)) (Some (DateTime b)) (Some fs) False p
      = (if ?n = 0 then (Inr [], snd (?cc p)) else ?ids (snd (?cc p)))"
    by (simp add: find_orphans_def builder_both_bounds [OF fs] bindE_liftE_Inr
        bindE_fst [of "bindE ?cc (\<lambda>count_diff. returnE (count_diff = 0))" p, OF flag]
        flag_state returnE_apply)
  show ?thesis
  proof (cases "?n = 0")
    case True
    then show ?thesis using unfold cc by simp
  next
    case False
    note ids = orphans_by_ids_range [of "all_ids_query_text tn kf ?wc" a b fs "snd (?cc p)"]
    have rec': "reconciled (rows (source (snd (?cc p)))) (rows (target (snd (?cc p))))"
      using rec cc by simp
    show ?thesis
      using False unfold ids cc orphan_keys_are_orphan_rows [OF rec', of fs a b] by simp
  qed
qed

lemma flat_reconciled:
  assumes fs: "fs \<noteq> []" and rec: "reconciled (rows (source p)) (rows (target p))"
  shows "fst (remove_orphans_from_target tn kf (Some (DateTime a)) (Some (DateTime b)) (Some fs)
                False p)
           = Inr (int (length (orphans_in fs a b (rows (source p)) (rows (target p)))))
     \<and> rows (source (snd (remove_orphans_from_target tn kf (Some (DateTime a)) (Some (DateTime b))
                             (Some fs) False p))) = rows (source p)
     \<and> rows (target (snd (remove_orphans_from_target tn kf (Some (DateTime a)) (Some (DateTime b))
                             (Some fs) False p)))
         = without_orphans fs a b (rows (source p)) (rows (target p))"
proof -
  let ?fo = "find_orphans tn kf (Some (DateTime a)) (Some (DateTime b)) (Some fs) False p"
  let ?ks = "map row_key (orphans_in fs a b (rows (source p)) (rows (target p)))"
  note fo = find_orphans_reconciled [OF fs rec, of tn kf a b]
  then have eq: "?fo = (Inr ?ks, snd ?fo)" by (simp add: prod_eq_iff)
  note del = delete_orphan_keys [OF rec, of fs a b]
  show ?thesis
  proof (cases "?ks = []")
    case True
    then have "without_orphans fs a b (rows (source p)) (rows (target p)) = rows (target p)"
      using del by simp
    then show ?thesis
      using remove_orphans_from_target_unfold [OF eq] fo True by simp
  next
    case False
    then show ?thesis
      using remove_orphans_from_target_unfold [OF eq] fo del by simp
  qed
qed


lemma column_in_halves:
  "column_in lo hi r f \<Longrightarrow> column_in lo mid r f \<or> column_in mid hi r f"
  by (cases "map_of (stamps r) f") (auto simp: column_in_def)

lemma column_in_split:
  "lo \<le> mid \<Longrightarrow> mid \<le> hi \<Longrightarrow>
   column_in lo hi r f \<longleftrightarrow> column_in lo mid r f \<or> column_in mid hi r f"
  by (cases "map_of (stamps r) f") (auto simp: column_in_def)

lemma in_range_halves:
  "in_range fs lo hi r \<Longrightarrow> in_range fs lo mid r \<or> in_range fs mid hi r"
  unfolding in_range_def list_ex_iff using column_in_halves by blast

lemma in_range_split:
  assumes "lo \<le> mid" "mid \<le> hi"
  shows "in_range fs lo hi r \<longleftrightarrow> in_range fs lo mid r \<or> in_range fs mid hi r"
  unfolding in_range_def list_ex_iff using column_in_split [OF assms] by blast

lemma halves_combine:
  assumes "lo \<le> mid" "mid \<le> hi"
  shows "length (orphans_in fs lo mid src tgt)
           + length (orphans_in fs mid hi src (without_orphans fs lo mid src tgt))
         = length (orphans_in fs lo hi src tgt)
       \<and> without_orphans fs mid hi src (without_orphans fs lo mid src tgt)
         = without_orphans fs lo hi src tgt"
  by (induction tgt) (auto simp: orphans_in_def without_orphans_def in_range_split [OF assms])

lemma empty_halves:
  assumes "filter (in_range fs lo mid) tgt = []" "filter (in_range fs mid hi) tgt = []"
  shows "orphans_in fs lo hi src tgt = [] \<and> without_orphans fs lo hi src tgt = tgt"
proof -
  have "\<And>r. r \<in> set tgt \<Longrightarrow> \<not> in_range fs lo hi r"
    using assms in_range_halves [of fs lo hi _ mid] by (auto simp: filter_empty_conv)
  then show ?thesis
    by (auto simp: orphans_in_def without_orphans_def filter_empty_conv filter_id_conv)
qed

lemma guarded_count:
  assumes fs: "fs \<noteq> []"
  shows "fst ((if c then on_target (count tn fld (Some (DateTime a)) (Some (DateTime b)) (Some fs)
                                     False)
               else returnE 0) p)
           = Inr (if c then int (length (filter (in_range fs a b) (rows (target p)))) else 0)
     \<and> rows (source (snd ((if c then on_target (count tn fld (Some (DateTime a))
                                                   (Some (DateTime b)) (Some fs) False)
                             else returnE 0) p))) = rows (source p)
     \<and> rows (target (snd ((if c then on_target (count tn fld (Some (DateTime a))
                                                   (Some (DateTime b)) (Some fs) False)
                             else returnE 0) p))) = rows (target p)"
  using target_count_range [OF fs, of tn fld a b p] by (simp add: returnE_apply)


lemma two_halves:
  assumes "fst (f1 p) = Inr m1"
    and "rows (source (snd (f1 p))) = src"
    and "fst (f2 (snd (f1 p))) = Inr m2"
    and "rows (source (snd (f2 (snd (f1 p))))) = src"
    and "rows (target (snd (f2 (snd (f1 p))))) = tgt2"
  shows "fst (bindE f1 (\<lambda>a. bindE f2 (\<lambda>b. returnE (g a b))) p) = Inr (g m1 m2)
       \<and> rows (source (snd (bindE f1 (\<lambda>a. bindE f2 (\<lambda>b. returnE (g a b))) p))) = src
       \<and> rows (target (snd (bindE f1 (\<lambda>a. bindE f2 (\<lambda>b. returnE (g a b))) p))) = tgt2"
  by (simp add: bindE_fst [of f1 p, OF assms(1)] bindE_fst [of f2 "snd (f1 p)", OF assms(3)]
      returnE_apply assms(4,5))

lemma two_counts:
  assumes "fst (c1 p) = Inr n1" and "fst (c2 (snd (c1 p))) = Inr n2"
  shows "bindE c1 (\<lambda>x. bindE c2 (\<lambda>y. body x y)) p = body n1 n2 (snd (c2 (snd (c1 p))))"
  by (simp add: bindE_fst [of c1 p, OF assms(1)] bindE_fst [of c2 "snd (c1 p)", OF assms(2)])

lemma bisect_reconciled:
  assumes fs: "fs \<noteq> []"
  shows "reconciled (rows (source p)) (rows (target p)) \<Longrightarrow> s < e \<Longrightarrow>
     fst (remove_orphans_from_target_with_binary_search tn kf (Some (DateTime s))
            (Some (DateTime e)) (Some fs) False thres mss p)
       = Inr (int (length (orphans_in fs s e (rows (source p)) (rows (target p)))))
     \<and> rows (source (snd (remove_orphans_from_target_with_binary_search tn kf (Some (DateTime s))
            (Some (DateTime e)) (Some fs) False thres mss p))) = rows (source p)
     \<and> rows (target (snd (remove_orphans_from_target_with_binary_search tn kf (Some (DateTime s))
            (Some (DateTime e)) (Some fs) False thres mss p)))
       = without_orphans fs s e (rows (source p)) (rows (target p))"
proof (induction "nat (e - s)" arbitrary: s e p mss rule: less_induct)
  case less
  let ?S = "rows (source p)" and ?T = "rows (target p)"
  note rec = less.prems(1)
  define h where "h = s + half_rounded (e - s)"
  have avg: "avg_datetime (Some (DateTime s)) (Some (DateTime e)) = Inr (DateTime h)"
    by (simp add: h_def)
  have rng: "s \<le> h" "h < e"
    using half_rounded_range [of "e - s"] less.prems(2) by (simp_all add: h_def)
  let ?c1 = "if DateTime s \<noteq> DateTime h
             then on_target (count tn (Some kf) (Some (DateTime s)) (Some (DateTime h))
                               (Some fs) False)
             else returnE 0"
  let ?c2 = "if DateTime e \<noteq> DateTime h
             then on_target (count tn (Some kf) (Some (DateTime h)) (Some (DateTime e))
                               (Some fs) False)
             else returnE 0"
  define p1 where "p1 = snd (?c1 p)"
  define p2 where "p2 = snd (?c2 p1)"
  define n1 where "n1 = (if DateTime s \<noteq> DateTime h
                          then int (length (filter (in_range fs s h) ?T)) else 0)"
  define n2 where "n2 = (if DateTime e \<noteq> DateTime h
                          then int (length (filter (in_range fs h e) ?T)) else 0)"
  have c1: "fst (?c1 p) = Inr n1" "rows (source p1) = ?S" "rows (target p1) = ?T"
    using guarded_count [OF fs, of "DateTime s \<noteq> DateTime h" tn "Some kf" s h p]
    unfolding p1_def n1_def by simp_all
  have c2: "fst (?c2 p1) = Inr n2" "rows (source p2) = ?S" "rows (target p2) = ?T"
    using guarded_count [OF fs, of "DateTime e \<noteq> DateTime h" tn "Some kf" h e p1] c1(2,3)
    unfolding p2_def n2_def by simp_all
  have rec2: "reconciled (rows (source p2)) (rows (target p2))"
    using rec c2 by simp
  let ?flat = "\<lambda>a b. remove_orphans_from_target tn kf (Some (DateTime a)) (Some (DateTime b))
                        (Some fs) False"
  let ?rec = "\<lambda>a b. remove_orphans_from_target_with_binary_search tn kf (Some (DateTime a))
                        (Some (DateTime b)) (Some fs) False thres default_min_segment_size"
  have run: "remove_orphans_from_target_with_binary_search tn kf (Some (DateTime s))
            (Some (DateTime e)) (Some fs) False thres mss p
      = (if DateTime s = DateTime h \<or> DateTime e = DateTime h
            \<or> timedelta_between (Some (DateTime s)) (DateTime h) < mss
         then ?flat s e
         else if n1 = 0 \<and> n2 = 0 then returnE 0
         else if n1 < thres \<and> n2 < thres
         then bindE (?flat s h) (\<lambda>removed1. bindE (?flat h e)
                (\<lambda>removed2. returnE (removed1 + removed2)))
         else if n1 \<ge> thres \<or> n2 \<ge> thres
         then bindE (?rec s h) (\<lambda>removed1. bindE (?rec h e)
                (\<lambda>removed2. returnE (0 + (removed1 + removed2))))
         else returnE 0) p2"
    unfolding p2_def p1_def
    by (subst bisect_unfold [OF avg], rule two_counts) (use c1(1) c2(1) in \<open>simp_all add: p1_def\<close>)
  show ?case
  proof (cases "DateTime s = DateTime h \<or> DateTime e = DateTime h
                \<or> timedelta_between (Some (DateTime s)) (DateTime h) < mss")
    case True
    then have "remove_orphans_from_target_with_binary_search tn kf (Some (DateTime s))
            (Some (DateTime e)) (Some fs) False thres mss p = ?flat s e p2"
      unfolding run by (simp only: if_True)
    then show ?thesis
      using flat_reconciled [OF fs rec2, of tn kf s e] c2 by simp
  next
    case nobase: False
    then have lt: "s < h" "h < e" using rng by auto
    have le: "s \<le> h" "h \<le> e" using lt by auto
    show ?thesis
    proof (cases "n1 = 0 \<and> n2 = 0")
      case True
      then have "remove_orphans_from_target_with_binary_search tn kf (Some (DateTime s))
            (Some (DateTime e)) (Some fs) False thres mss p = returnE 0 p2"
        unfolding run using nobase by simp
      moreover have "filter (in_range fs s h) ?T = []" "filter (in_range fs h e) ?T = []"
        using True nobase by (simp_all add: n1_def n2_def)
      ultimately show ?thesis
        using empty_halves [of fs s h ?T e ?S] c2 by (simp add: returnE_apply)
    next
      case nonzero: False
      note f1 = flat_reconciled [OF fs rec2, of tn kf s h]
      let ?p3 = "snd (?flat s h p2)"
      have rec3: "reconciled (rows (source ?p3)) (rows (target ?p3))"
        using f1 reconciled_without_orphans [OF rec2] by simp
      note f2 = flat_reconciled [OF fs rec3, of tn kf h e]
      have m1: "nat (h - s) < nat (e - s)" and m2: "nat (e - h) < nat (e - s)"
        using lt by auto
      note r1 = less.hyps [OF m1 rec2 lt(1), of default_min_segment_size]
      let ?q3 = "snd (?rec s h p2)"
      have recq3: "reconciled (rows (source ?q3)) (rows (target ?q3))"
        using r1 reconciled_without_orphans [OF rec2] by simp
      note r2 = less.hyps [OF m2 recq3 lt(2), of default_min_segment_size]
      note comb = halves_combine [OF le, of fs ?S ?T]
      show ?thesis
      proof (cases "n1 < thres \<and> n2 < thres")
        case True
        then have "remove_orphans_from_target_with_binary_search tn kf (Some (DateTime s))
            (Some (DateTime e)) (Some fs) False thres mss p
            = bindE (?flat s h) (\<lambda>removed1. bindE (?flat h e)
                (\<lambda>removed2. returnE (removed1 + removed2))) p2"
          unfolding run using nobase nonzero by auto
        then show ?thesis
          using two_halves [of "?flat s h" p2 _ ?S "?flat h e" _ _ "\<lambda>a b. a + b"] f1 f2 comb c2
          by simp
      next
        case False
        then have "n1 \<ge> thres \<or> n2 \<ge> thres" by auto
        then have "remove_orphans_from_target_with_binary_search tn kf (Some (DateTime s))
            (Some (DateTime e)) (Some fs) False thres mss p
            = bindE (?rec s h) (\<lambda>removed1. bindE (?rec h e)
                (\<lambda>removed2. returnE (0 + (removed1 + removed2)))) p2"
          unfolding run using nobase nonzero False by auto
        then show ?thesis
          using two_halves [of "?rec s h" p2 _ ?S "?rec h e" _ _ "\<lambda>a b. 0 + (a + b)"] r1 r2 comb c2
          by simp
      qed
    qed
  qed
qed

lemma bisect_no_fields:
  assumes "\<not> fields_given tf" and "s < e"
  shows "remove_orphans_from_target_with_binary_search tn kf (Some (DateTime s))
           (Some (DateTime e)) tf False thres mss p = (Inl (ValueError msg_no_fields), p)
       \<and> remove_orphans_from_target tn kf (Some (DateTime s)) (Some (DateTime e)) tf False p
           = (Inl (ValueError msg_no_fields), p)"
proof -
  define h where "h = s + half_rounded (e - s)"
  have avg: "avg_datetime (Some (DateTime s)) (Some (DateTime e)) = Inr (DateTime h)"
    by (simp add: h_def)
  have rng: "h < e" using half_rounded_range [of "e - s"] assms(2) by (simp add: h_def)
  have b: "\<And>a b. construct_where_clause_from_timerange (Some a) (Some b) tf False
                  = Inl (ValueError msg_no_fields)"
    using assms(1) by (simp add: construct_where_clause_from_timerange_def)
  have c: "\<And>a b. on_target (count tn (Some kf) (Some a) (Some b) tf False) p
                 = (Inl (ValueError msg_no_fields), p)"
    by (simp add: on_target_def count_builder_Inl [OF b])
  have flat: "remove_orphans_from_target tn kf (Some (DateTime s)) (Some (DateTime e)) tf False p
           = (Inl (ValueError msg_no_fields), p)"
  proof -
    have "find_orphans tn kf (Some (DateTime s)) (Some (DateTime e)) tf False p
           = (Inl (ValueError msg_no_fields), p)"
      by (simp add: find_orphans_def b bindE_liftE_Inl raiseE_def)
    then show ?thesis by (rule remove_orphans_from_target_fails)
  qed
  have "remove_orphans_from_target_with_binary_search tn kf (Some (DateTime s))
           (Some (DateTime e)) tf False thres mss p = (Inl (ValueError msg_no_fields), p)"
    using rng by (subst bisect_unfold [OF avg]) (simp add: bindE_def c returnE_apply)
  then show ?thesis using flat by simp
qed

text \<open>
  Claim C1 (the bisecting removal returns the same total as one flat removal over the
  range, on any dataset). \<open>find_orphans\<close> returns the empty set whenever the counts of
  the range agree, so the flat removal can return 0 over a range whose halves, each with
  different counts, give up their orphans to the bisection:
\<close>

lemma bisect_example_unfold:
  "avg_datetime (Some (DateTime 0)) (Some (DateTime 40000000)) = Inr (DateTime 20000000)"
  by (simp add: half_rounded_def)

theorem bisection_sum_law_counterexample:
  "fst (remove_orphans_from_target_with_binary_search ''orders'' ''id''
          (Some (DateTime 0)) (Some (DateTime 40000000)) (Some [''created_at'']) False 10000
          default_min_segment_size
          (pair_of [stamped (IntId 2) [(''created_at'', 30000000)]]
                   [stamped (IntId 1) [(''created_at'', 5000000)]])) = Inr 1
   \<and> fst (remove_orphans_from_target ''orders'' ''id''
          (Some (DateTime 0)) (Some (DateTime 40000000)) (Some [''created_at'']) False
          (pair_of [stamped (IntId 2) [(''created_at'', 30000000)]]
                   [stamped (IntId 1) [(''created_at'', 5000000)]])) = Inr 0"
  by (simp add: bisect_unfold [OF bisect_example_unfold] run_defs default_min_segment_size_def
      str_int_def digit_char_def del: set_filter)

text \<open>
  Claim C1 as amended: with both bounds given as datetimes, the start before the end, no
  date truncation, and stores that are reconciled, the bisecting removal returns what the
  flat removal over the same range returns, for every threshold and segment size, and
  leaves the same rows in the target (the source is not touched); with timestamp columns
  given, it is the number of orphans of the range.
\<close>

theorem bisection_sum_law_on_reconciled_stores:
  assumes "reconciled (rows (source p)) (rows (target p))" and "s < e"
  shows "fst (remove_orphans_from_target_with_binary_search table_name key_field
                (Some (DateTime s)) (Some (DateTime e)) timestamp_fields False thres
                min_segment_size p)
         = fst (remove_orphans_from_target table_name key_field
                  (Some (DateTime s)) (Some (DateTime e)) timestamp_fields False p)
    \<and> rows (target (snd (remove_orphans_from_target_with_binary_search table_name key_field
                (Some (DateTime s)) (Some (DateTime e)) timestamp_fields False thres
                min_segment_size p)))
         = rows (target (snd (remove_orphans_from_target table_name key_field
                  (Some (DateTime s)) (Some (DateTime e)) timestamp_fields False p)))
    \<and> rows (source (snd (remove_orphans_from_target_with_binary_search table_name key_field
                (Some (DateTime s)) (Some (DateTime e)) timestamp_fields False thres
                min_segment_size p)))
         = rows (source p)
    \<and> (fields_given timestamp_fields \<longrightarrow>
         fst (remove_orphans_from_target_with_binary_search table_name key_field
                (Some (DateTime s)) (Some (DateTime e)) timestamp_fields False thres
                min_segment_size p)
         = Inr (int (length (orphans_in (fields_of timestamp_fields) s e
                               (rows (source p)) (rows (target p))))))"
proof (cases "fields_given timestamp_fields")
  case True
  then obtain fs where fs: "timestamp_fields = Some fs" "fs \<noteq> []"
    by (cases timestamp_fields) auto
  show ?thesis
    using bisect_reconciled [OF fs(2) assms, of table_name key_field thres min_segment_size]
      flat_reconciled [OF fs(2) assms(1), of table_name key_field s e]
    by (simp add: fs)
next
  case False
  then show ?thesis
    using bisect_no_fields [OF False assms(2), of table_name key_field thres min_segment_size p]
    by simp
qed


theorem bisection_sum_law_on_reconciled_stores_witness:
  "reconciled [stamped (IntId 2) [(''created_at'', 30000000)]]
      [stamped (IntId 1) [(''created_at'', 5000000)], stamped (IntId 2) [(''created_at'', 30000000)],
       stamped (OtherId ''ab'') [(''created_at'', 20000000)]]
   \<and> (0::int) < 40000000
   \<and> fst (remove_orphans_from_target_with_binary_search ''orders'' ''id''
          (Some (DateTime 0)) (Some (DateTime 40000000)) (Some [''created_at'']) False 1
          default_min_segment_size
          (pair_of [stamped (IntId 2) [(''created_at'', 30000000)]]
             [stamped (IntId 1) [(''created_at'', 5000000)],
              stamped (IntId 2) [(''created_at'', 30000000)],
              stamped (OtherId ''ab'') [(''created_at'', 20000000)]])) = Inr 2
   \<and> fst (remove_orphans_from_target ''orders'' ''id''
          (Some (DateTime 0)) (Some (DateTime 40000000)) (Some [''created_at'']) False
          (pair_of [stamped (IntId 2) [(''created_at'', 30000000)]]
             [stamped (IntId 1) [(''created_at'', 5000000)],
              stamped (IntId 2) [(''created_at'', 30000000)],
              stamped (OtherId ''ab'') [(''created_at'', 20000000)]])) = Inr 2"
proof -
  let ?src = "[stamped (IntId 2) [(''created_at'', 30000000)]]"
  let ?tgt = "[stamped (IntId 1) [(''created_at'', 5000000)],
       stamped (IntId 2) [(''created_at'', 30000000)],
       stamped (OtherId ''ab'') [(''created_at'', 20000000)]]"
  have r: "reconciled ?src ?tgt"
    by (simp add: reconciled_def row_key_def stamped_def)
  then have r': "reconciled (rows (source (pair_of ?src ?tgt))) (rows (target (pair_of ?src ?tgt)))"
    by (simp add: pair_of_def)
  have lt: "(0::int) < 40000000" by simp
  have flat: "fst (remove_orphans_from_target ''orders'' ''id''
          (Some (DateTime 0)) (Some (DateTime 40000000)) (Some [''created_at'']) False
          (pair_of ?src ?tgt)) = Inr 2"
    by (simp add: run_defs str_int_def digit_char_def del: set_filter)
  show ?thesis
    using bisection_sum_law_on_reconciled_stores [OF r' lt, of "''orders''" "''id''"
        "Some [''created_at'']" 1 default_min_segment_size] r flat
    by simp
qed

end
